theory Spec2Isabelle
  imports Main
begin


section \<open>Python values: errors, lists, dictionaries\<close>

text \<open>
  The module \<^verbatim>\<open>sage/quivers/homspace.py\<close> is embedded function by function.
  Every \<^verbatim>\<open>raise\<close> of the source, and every library operation of the source that
  can raise (a dictionary lookup, \<^verbatim>\<open>list.index\<close>, an indexed read or write), is a
  branch \<open>Inl\<close> of the result type.
\<close>

datatype error =
    ValueError string
  | KeyError
  | IndexError
  | AttributeError
  | TypeError
  | ArithmeticError

type_synonym 'a result = "error + 'a"

definition ebind :: "'a result \<Rightarrow> ('a \<Rightarrow> 'b result) \<Rightarrow> 'b result" where
  "ebind m f = (case m of Inl e \<Rightarrow> Inl e | Inr x \<Rightarrow> f x)"

text \<open>\<^verbatim>\<open>for x in xs: body\<close>, the loop state threaded through, stopping at the first error.\<close>

fun for_loop :: "'b list \<Rightarrow> ('b \<Rightarrow> 's \<Rightarrow> 's result) \<Rightarrow> 's \<Rightarrow> 's result" where
  "for_loop [] body s = Inr s"
| "for_loop (x # xs) body s = ebind (body x s) (for_loop xs body)"

text \<open>\<^verbatim>\<open>d[k]\<close> on a dictionary.\<close>

definition dict_get :: "('k \<rightharpoonup> 'v) \<Rightarrow> 'k \<Rightarrow> 'v result" where
  "dict_get d k = (case d k of None \<Rightarrow> Inl KeyError | Some v \<Rightarrow> Inr v)"

text \<open>\<^verbatim>\<open>xs.index(v)\<close>: the first position of \<open>v\<close>, a \<^verbatim>\<open>ValueError\<close> when there is none.\<close>

fun list_index :: "'a list \<Rightarrow> 'a \<Rightarrow> nat result" where
  "list_index [] v = Inl (ValueError ''value is not in list'')"
| "list_index (x # xs) v =
     (if x = v then Inr 0 else ebind (list_index xs v) (\<lambda>i. Inr (Suc i)))"

text \<open>\<^verbatim>\<open>xs[i]\<close> and \<^verbatim>\<open>xs[i] = v\<close> for a non-negative index.\<close>

definition list_get :: "'a list \<Rightarrow> nat \<Rightarrow> 'a result" where
  "list_get xs i = (if i < length xs then Inr (xs ! i) else Inl IndexError)"

definition list_set :: "'a list \<Rightarrow> nat \<Rightarrow> 'a \<Rightarrow> 'a list result" where
  "list_set xs i v = (if i < length xs then Inr (xs[i := v]) else Inl IndexError)"

section \<open>Matrices\<close>

text \<open>
  A dense matrix of the linear-algebra library, seen through the operations the module
  uses: \<^verbatim>\<open>nrows()\<close>, \<^verbatim>\<open>ncols()\<close>, \<^verbatim>\<open>M[i, j]\<close> and \<^verbatim>\<open>M[i, j] = v\<close>.
  An index outside the matrix raises \<^verbatim>\<open>IndexError\<close>.
\<close>

record 'a Matrix =
  nrows :: nat
  ncols :: nat
  entry :: "nat \<Rightarrow> nat \<Rightarrow> 'a"

text \<open>\<^verbatim>\<open>Matrix(ring, n, m)\<close>: the zero matrix with \<open>n\<close> rows and \<open>m\<close> columns.\<close>

definition zero_matrix :: "nat \<Rightarrow> nat \<Rightarrow> ('a::zero) Matrix" where
  "zero_matrix n m = \<lparr>nrows = n, ncols = m, entry = (\<lambda>i j. 0)\<rparr>"

text \<open>\<^verbatim>\<open>Matrix(n, n, one)\<close>: the scalar matrix with \<open>one\<close> on the diagonal.\<close>

definition scalar_matrix :: "nat \<Rightarrow> 'a \<Rightarrow> ('a::zero) Matrix" where
  "scalar_matrix n a = \<lparr>nrows = n, ncols = n, entry = (\<lambda>i j. if i = j then a else 0)\<rparr>"

definition get_entry :: "'a Matrix \<Rightarrow> nat \<Rightarrow> nat \<Rightarrow> 'a result" where
  "get_entry m i j =
     (if i < nrows m \<and> j < ncols m then Inr (entry m i j) else Inl IndexError)"

definition set_entry :: "'a Matrix \<Rightarrow> nat \<Rightarrow> nat \<Rightarrow> 'a \<Rightarrow> 'a Matrix result" where
  "set_entry m i j v =
     (if i < nrows m \<and> j < ncols m
      then Inr (m\<lparr>entry := (entry m)(i := (entry m i)(j := v))\<rparr>)
      else Inl IndexError)"

text \<open>
  \<^verbatim>\<open>coef_mat.kernel()\<close> is the left kernel: the vectors \<open>w\<close>, one coordinate per row,
  with \<open>w * coef_mat = 0\<close>. The space is represented by the matrix it is the kernel of,
  and \<^verbatim>\<open>w in space\<close> by the product test.
\<close>

datatype 'a Space = Kernel "'a Matrix"

definition dot_column :: "('a::comm_ring_1) list \<Rightarrow> 'a Matrix \<Rightarrow> nat \<Rightarrow> 'a" where
  "dot_column w m c = sum_list (map (\<lambda>r. w ! r * entry m r c) [0..<nrows m])"

fun space_contains :: "('a::comm_ring_1) Space \<Rightarrow> 'a list \<Rightarrow> bool" where
  "space_contains (Kernel m) w =
     (length w = nrows m \<and> list_all (\<lambda>c. dot_column w m c = 0) [0..<ncols m])"

section \<open>Quivers and representations\<close>

text \<open>
  The classes \<^verbatim>\<open>Quiver\<close> and \<^verbatim>\<open>QuiverRep\<close> are used by the module through their
  attributes only. An object carries its identity (what \<^verbatim>\<open>is\<close> compares) beside its
  contents (what \<^verbatim>\<open>==\<close> and \<^verbatim>\<open>!=\<close> compare). An edge is the triple
  \<^verbatim>\<open>(source, target, label)\<close>. Of the space at a vertex only \<^verbatim>\<open>dimension()\<close> is
  read, and of the map at an edge only \<^verbatim>\<open>matrix()\<close>. \<open>rep_factory_data\<close> is
  \<^verbatim>\<open>_factory_data[2]\<close>, the key under which the factory of representations made the
  object (a number stands for the key), and \<open>None\<close> when the object has no such attribute.
\<close>

type_synonym vertex = nat
type_synonym edge = "vertex \<times> vertex \<times> string"

record Quiver =
  quiver_id :: nat
  vertices :: "vertex list"
  edges :: "edge list"

record BaseRing =
  ring_id :: nat
  ring_name :: string

record 'a QuiverRep =
  rep_id :: nat
  rep_quiver :: Quiver
  rep_base_ring :: BaseRing
  rep_spaces :: "vertex \<rightharpoonup> nat"
  rep_maps :: "edge \<rightharpoonup> 'a Matrix"
  rep_factory_data :: "nat option"

definition quiver_ne :: "Quiver \<Rightarrow> Quiver \<Rightarrow> bool" where
  "quiver_ne q1 q2 = (vertices q1 \<noteq> vertices q2 \<or> edges q1 \<noteq> edges q2)"

definition ring_ne :: "BaseRing \<Rightarrow> BaseRing \<Rightarrow> bool" where
  "ring_ne r1 r2 = (ring_name r1 \<noteq> ring_name r2)"

definition rep_ne :: "'a QuiverRep \<Rightarrow> 'a QuiverRep \<Rightarrow> bool" where
  "rep_ne m n =
     (quiver_ne (rep_quiver m) (rep_quiver n) \<or> ring_ne (rep_base_ring m) (rep_base_ring n)
      \<or> rep_spaces m \<noteq> rep_spaces n \<or> rep_maps m \<noteq> rep_maps n)"

section \<open>The constructor of \<^verbatim>\<open>QuiverHomSpace_generic\<close>\<close>

record 'a QuiverHomSpace =
  hs_id :: nat
  hs_quiver :: Quiver
  hs_domain :: "'a QuiverRep"
  hs_codomain :: "'a QuiverRep"
  hs_space :: "'a Space"
  hs_identity :: bool
  hs_base :: BaseRing

text \<open>
  Lines 207-208: \<^verbatim>\<open>varstart[verts.index(v) + 1] = dim M_v * dim N_v\<close> for every vertex.
\<close>

definition varstart_dims ::
  "'a QuiverRep \<Rightarrow> 'a QuiverRep \<Rightarrow> vertex list \<Rightarrow> nat list \<Rightarrow> nat list result" where
  "varstart_dims domain codomain verts varstart0 =
     for_loop verts (\<lambda>v varstart.
       ebind (dict_get (rep_spaces domain) v) (\<lambda>dm.
       ebind (dict_get (rep_spaces codomain) v) (\<lambda>dn.
       ebind (list_index verts v) (\<lambda>i.
       list_set varstart (i + 1) (dm * dn))))) varstart0"

text \<open>
  Lines 209-210: \<^verbatim>\<open>eqs += dim M_{e[0]} * dim N_{e[1]}\<close> for every edge.
\<close>

definition count_equations ::
  "'a QuiverRep \<Rightarrow> 'a QuiverRep \<Rightarrow> edge list \<Rightarrow> nat result" where
  "count_equations domain codomain es =
     for_loop es (\<lambda>e eqs.
       ebind (dict_get (rep_spaces domain) (fst e)) (\<lambda>dm.
       ebind (dict_get (rep_spaces codomain) (fst (snd e))) (\<lambda>dn.
       Inr (eqs + dm * dn)))) 0"

text \<open>
  Lines 215-216: \<^verbatim>\<open>for i in range(2, len(varstart)): varstart[i] += varstart[i-1]\<close>.
\<close>

definition varstart_cumulate :: "nat list \<Rightarrow> nat list result" where
  "varstart_cumulate varstart0 =
     for_loop [2..<length varstart0] (\<lambda>i varstart.
       ebind (list_get varstart i) (\<lambda>a.
       ebind (list_get varstart (i - 1)) (\<lambda>b.
       list_set varstart i (a + b)))) varstart0"

text \<open>
  Lines 242-246, the body of the loops over \<open>i\<close> and \<open>j\<close>: the two loops over \<open>k\<close>
  assign into column \<open>eqn\<close> of the coefficient matrix, then \<^verbatim>\<open>eqn += 1\<close>.
\<close>

definition write_equation ::
  "vertex list \<Rightarrow> nat list \<Rightarrow> edge \<Rightarrow> ('a::uminus) Matrix \<Rightarrow> 'a Matrix \<Rightarrow> nat \<Rightarrow> nat \<Rightarrow>
     'a Matrix \<times> nat \<Rightarrow> ('a Matrix \<times> nat) result" where
  "write_equation verts varstart e X Y i j st =
     ebind (for_loop [0..<nrows Y] (\<lambda>k coef_mat.
              ebind (get_entry Y k j) (\<lambda>y.
              ebind (list_index verts (fst e)) (\<lambda>s.
              ebind (list_get varstart s) (\<lambda>vs.
              set_entry coef_mat (vs + i * nrows Y + k) (snd st) y)))) (fst st))
       (\<lambda>coef_mat.
     ebind (for_loop [0..<ncols X] (\<lambda>k coef_mat.
              ebind (get_entry X i k) (\<lambda>x.
              ebind (list_index verts (fst (snd e))) (\<lambda>t.
              ebind (list_get varstart t) (\<lambda>vt.
              set_entry coef_mat (vt + k * ncols Y + j) (snd st) (- x))))) coef_mat)
       (\<lambda>coef_mat.
     Inr (coef_mat, snd st + 1)))"

text \<open>Lines 236-246: the loops over the edges, the rows of \<open>X\<close> and the columns of \<open>Y\<close>.\<close>

definition fill_coef_mat ::
  "('a::uminus) QuiverRep \<Rightarrow> 'a QuiverRep \<Rightarrow> vertex list \<Rightarrow> nat list \<Rightarrow> edge list \<Rightarrow>
     'a Matrix \<Rightarrow> ('a Matrix \<times> nat) result" where
  "fill_coef_mat domain codomain verts varstart es coef_mat0 =
     for_loop es (\<lambda>e st.
       ebind (dict_get (rep_maps domain) e) (\<lambda>X.
       ebind (dict_get (rep_maps codomain) e) (\<lambda>Y.
       for_loop [0..<nrows X] (\<lambda>i st.
         for_loop [0..<ncols Y] (\<lambda>j st.
           write_equation verts varstart e X Y i j st) st) st))) (coef_mat0, 0)"

text \<open>
  Lines 201-246: the system of equations, that is the coefficient matrix and the final
  value of the equation counter \<open>eqn\<close>.
\<close>

definition build_system ::
  "('a::{zero,uminus}) QuiverRep \<Rightarrow> 'a QuiverRep \<Rightarrow> ('a Matrix \<times> nat) result" where
  "build_system domain codomain =
     (let verts = vertices (rep_quiver domain) in
      ebind (varstart_dims domain codomain verts (replicate (length verts + 1) 0))
        (\<lambda>varstart.
      ebind (count_equations domain codomain (edges (rep_quiver domain))) (\<lambda>eqs.
      ebind (varstart_cumulate varstart) (\<lambda>varstart.
      ebind (list_get varstart (length varstart - 1)) (\<lambda>n.
      fill_coef_mat domain codomain verts varstart (edges (rep_quiver domain))
        (zero_matrix n eqs))))))"

text \<open>
  \<^verbatim>\<open>__init__\<close> (lines 145-256). \<open>self\<close> is the identity of the object being
  initialised. The attribute \<^verbatim>\<open>identity\<close> is bound when \<^verbatim>\<open>domain is codomain\<close>.
\<close>

definition QuiverHomSpace_generic ::
  "nat \<Rightarrow> ('a::{zero,uminus}) QuiverRep \<Rightarrow> 'a QuiverRep \<Rightarrow> 'a QuiverHomSpace result" where
  "QuiverHomSpace_generic self domain codomain =
     (if quiver_ne (rep_quiver domain) (rep_quiver codomain)
      then Inl (ValueError ''Representations are not over the same quiver.'')
      else if ring_ne (rep_base_ring codomain) (rep_base_ring domain)
      then Inl (ValueError ''Representations are not over the same base ring.'')
      else ebind (build_system domain codomain) (\<lambda>st.
        Inr \<lparr>hs_id = self,
             hs_quiver = rep_quiver domain,
             hs_domain = domain,
             hs_codomain = codomain,
             hs_space = Kernel (fst st),
             hs_identity = (rep_id domain = rep_id codomain),
             hs_base = rep_base_ring codomain\<rparr>))"

section \<open>Well-formed inputs\<close>

text \<open>
  What the classes \<^verbatim>\<open>Quiver\<close> and \<^verbatim>\<open>QuiverRep\<close> provide to the module: the vertices
  of a quiver are distinct and every edge joins two of them; a representation has a space
  at every vertex and a map at every edge, whose matrix has as many rows as the space at
  the source of the edge has dimensions and as many columns as the space at its target.
\<close>

definition dim_at :: "'a QuiverRep \<Rightarrow> vertex \<Rightarrow> nat" where
  "dim_at M v = (case rep_spaces M v of None \<Rightarrow> 0 | Some d \<Rightarrow> d)"

definition edge_matrix :: "('a::zero) QuiverRep \<Rightarrow> edge \<Rightarrow> 'a Matrix" where
  "edge_matrix M e = (case rep_maps M e of None \<Rightarrow> zero_matrix 0 0 | Some X \<Rightarrow> X)"

definition quiver_ok :: "Quiver \<Rightarrow> bool" where
  "quiver_ok Q =
     (distinct (vertices Q) \<and>
      list_all (\<lambda>e. fst e \<in> set (vertices Q) \<and> fst (snd e) \<in> set (vertices Q)) (edges Q))"

definition rep_ok :: "Quiver \<Rightarrow> 'a QuiverRep \<Rightarrow> bool" where
  "rep_ok Q M =
     (list_all (\<lambda>v. rep_spaces M v \<noteq> None) (vertices Q) \<and>
      list_all (\<lambda>e. case rep_maps M e of None \<Rightarrow> False
                 | Some X \<Rightarrow> nrows X = dim_at M (fst e) \<and> ncols X = dim_at M (fst (snd e)))
        (edges Q))"

definition wf_rep :: "'a QuiverRep \<Rightarrow> bool" where
  "wf_rep M = (quiver_ok (rep_quiver M) \<and> rep_ok (rep_quiver M) M)"

text \<open>No edge of the quiver is a loop (an edge from a vertex to itself).\<close>

definition no_loops :: "Quiver \<Rightarrow> bool" where
  "no_loops Q = list_all (\<lambda>e. fst e \<noteq> fst (snd e)) (edges Q)"

section \<open>Homomorphisms as coordinate vectors\<close>

text \<open>
  The comment of \<^verbatim>\<open>__init__\<close> (lines 173-177, 193-196): the ambient space has one
  coordinate for each entry of each vertex matrix, "ordered first by the vertex the matrix
  occurs at, then by row then by column". \<open>var_offset M N v\<close> is the number of the
  coordinates of the vertices before \<open>v\<close>, and \<open>vertex_map M N w v\<close> is the matrix that
  the vector \<open>w\<close> holds at \<open>v\<close>. Matrices act on the right, so the maps \<open>A\<close> at the
  source and \<open>B\<close> at the target of an edge with maps \<open>X\<close> (domain) and \<open>Y\<close>
  (codomain) commute with the edge when \<open>A * Y = X * B\<close>.
\<close>

definition var_offset :: "'a QuiverRep \<Rightarrow> 'a QuiverRep \<Rightarrow> vertex \<Rightarrow> nat" where
  "var_offset M N v =
     sum_list (map (\<lambda>u. dim_at M u * dim_at N u)
       (takeWhile (\<lambda>u. u \<noteq> v) (vertices (rep_quiver M))))"

definition hom_dim :: "'a QuiverRep \<Rightarrow> 'a QuiverRep \<Rightarrow> nat" where
  "hom_dim M N = sum_list (map (\<lambda>v. dim_at M v * dim_at N v) (vertices (rep_quiver M)))"

definition vertex_map :: "'a QuiverRep \<Rightarrow> 'a QuiverRep \<Rightarrow> 'a list \<Rightarrow> vertex \<Rightarrow> 'a Matrix" where
  "vertex_map M N w v =
     \<lparr>nrows = dim_at M v, ncols = dim_at N v,
      entry = (\<lambda>i k. w ! (var_offset M N v + i * dim_at N v + k))\<rparr>"

definition mat_mul :: "('a::comm_ring_1) Matrix \<Rightarrow> 'a Matrix \<Rightarrow> 'a Matrix" where
  "mat_mul A B =
     \<lparr>nrows = nrows A, ncols = ncols B,
      entry = (\<lambda>i j. sum_list (map (\<lambda>k. entry A i k * entry B k j) [0..<ncols A]))\<rparr>"

definition mat_eq :: "'a Matrix \<Rightarrow> 'a Matrix \<Rightarrow> bool" where
  "mat_eq A B =
     (nrows A = nrows B \<and> ncols A = ncols B \<and>
      list_all (\<lambda>i. list_all (\<lambda>j. entry A i j = entry B i j) [0..<ncols A]) [0..<nrows A])"

definition commutes_at :: "('a::comm_ring_1) QuiverRep \<Rightarrow> 'a QuiverRep \<Rightarrow> 'a list \<Rightarrow> edge \<Rightarrow> bool" where
  "commutes_at M N w e =
     mat_eq (mat_mul (vertex_map M N w (fst e)) (edge_matrix N e))
            (mat_mul (edge_matrix M e) (vertex_map M N w (fst (snd e))))"

definition is_hom :: "('a::comm_ring_1) QuiverRep \<Rightarrow> 'a QuiverRep \<Rightarrow> 'a list \<Rightarrow> bool" where
  "is_hom M N w =
     (length w = hom_dim M N \<and> list_all (commutes_at M N w) (edges (rep_quiver M)))"

section \<open>The equations, one by one\<close>

text \<open>
  \<open>equations\<close> lists the iterations of the loops of lines 237-246 in their order: the
  triples of an edge \<open>e\<close>, a row \<open>i\<close> of \<open>X\<close> and a column \<open>j\<close> of \<open>Y\<close>.
  \<open>write_rows f g n col\<close> is a column after the assignments \<open>col[f k] = g k\<close> for
  \<open>k = 0, ..., n - 1\<close> in this order, \<open>equation_column\<close> the column after the two loops
  over \<open>k\<close> of one iteration, and \<open>system_matrix\<close> the matrix whose \<open>c\<close>-th column is
  the column written, into zeros, by the \<open>c\<close>-th iteration.
\<close>

definition equations :: "('a::zero) QuiverRep \<Rightarrow> 'a QuiverRep \<Rightarrow> edge list \<Rightarrow> (edge \<times> nat \<times> nat) list" where
  "equations M N es =
     concat (map (\<lambda>e. map (Pair e)
       (concat (map (\<lambda>i. map (Pair i) [0..<ncols (edge_matrix N e)])
                  [0..<nrows (edge_matrix M e)]))) es)"

definition write_rows :: "(nat \<Rightarrow> nat) \<Rightarrow> (nat \<Rightarrow> 'a) \<Rightarrow> nat \<Rightarrow> (nat \<Rightarrow> 'a) \<Rightarrow> nat \<Rightarrow> 'a" where
  "write_rows f g n col = fold (\<lambda>k c. c(f k := g k)) [0..<n] col"

definition equation_column ::
  "nat \<Rightarrow> nat \<Rightarrow> ('a::uminus) Matrix \<Rightarrow> 'a Matrix \<Rightarrow> nat \<Rightarrow> nat \<Rightarrow> (nat \<Rightarrow> 'a) \<Rightarrow> nat \<Rightarrow> 'a" where
  "equation_column vs vt X Y i j col =
     write_rows (\<lambda>k. vt + k * ncols Y + j) (\<lambda>k. - entry X i k) (ncols X)
       (write_rows (\<lambda>k. vs + i * nrows Y + k) (\<lambda>k. entry Y k j) (nrows Y) col)"

definition equation_of ::
  "('a::{zero,uminus}) QuiverRep \<Rightarrow> 'a QuiverRep \<Rightarrow> edge \<times> nat \<times> nat \<Rightarrow> nat \<Rightarrow> 'a" where
  "equation_of M N t =
     equation_column (var_offset M N (fst (fst t))) (var_offset M N (fst (snd (fst t))))
       (edge_matrix M (fst t)) (edge_matrix N (fst t)) (fst (snd t)) (snd (snd t)) (\<lambda>r. 0)"

definition system_matrix :: "('a::{zero,uminus}) QuiverRep \<Rightarrow> 'a QuiverRep \<Rightarrow> 'a Matrix" where
  "system_matrix M N =
     \<lparr>nrows = sum_list (map (\<lambda>v. dim_at M v * dim_at N v) (vertices (rep_quiver M))),
      ncols = length (equations M N (edges (rep_quiver M))),
      entry = (\<lambda>r c. if c < length (equations M N (edges (rep_quiver M)))
                      then equation_of M N (equations M N (edges (rep_quiver M)) ! c) r else 0)\<rparr>"

section \<open>The factory\<close>

text \<open>
  \<^verbatim>\<open>create_key\<close> (lines 71-78) compares the quivers and the base rings with \<^verbatim>\<open>is not\<close>,
  that is by identity, and returns the pair of the keys of the two representations.
  \<^verbatim>\<open>create_object\<close> (lines 96-98) asks the factory of representations for the objects of
  the two keys; \<open>get_object\<close>, a parameter, is that factory's \<^verbatim>\<open>get_object\<close>.
\<close>

definition factory_data :: "'a QuiverRep \<Rightarrow> nat result" where
  "factory_data M = (case rep_factory_data M of None \<Rightarrow> Inl AttributeError | Some k \<Rightarrow> Inr k)"

definition create_key :: "'a QuiverRep \<Rightarrow> 'a QuiverRep \<Rightarrow> (nat \<times> nat) result" where
  "create_key domain codomain =
     (if quiver_id (rep_quiver domain) \<noteq> quiver_id (rep_quiver codomain)
      then Inl (ValueError ''The quivers of the domain and codomain must be identical.'')
      else if ring_id (rep_base_ring domain) \<noteq> ring_id (rep_base_ring codomain)
      then Inl (ValueError ''The base rings of the domain and codomain must be identical.'')
      else ebind (factory_data domain) (\<lambda>k1.
           ebind (factory_data codomain) (\<lambda>k2.
           Inr (k1, k2))))"

definition create_object ::
  "(nat \<Rightarrow> ('a::{zero,uminus}) QuiverRep) \<Rightarrow> nat \<Rightarrow> nat \<times> nat \<Rightarrow> 'a QuiverHomSpace result" where
  "create_object get_object self key =
     QuiverHomSpace_generic self (get_object (fst key)) (get_object (snd key))"

text \<open>
  Modelled from the spec: the class \<^verbatim>\<open>UniqueFactory\<close> (\<^verbatim>\<open>sage/structure/factory\<close>) is not
  among the sources. The spec says of it that the objects are "constructed once and cached
  by identity (via the factory pattern)": a call of the factory computes the key, returns
  the object cached under the key when there is one, and otherwise creates the object,
  caches it under the key and returns it. \<open>next_id\<close> is the identity that the next new
  object gets.
\<close>

record 'a Factory =
  cache :: "nat \<times> nat \<rightharpoonup> 'a QuiverHomSpace"
  next_id :: nat

text \<open>
  Modelled from the spec: a call \<^verbatim>\<open>QuiverHomSpace(domain, codomain)\<close> of the factory,
  \<^verbatim>\<open>UniqueFactory.__call__\<close> not being among the sources.
\<close>

definition QuiverHomSpace ::
  "(nat \<Rightarrow> ('a::{zero,uminus}) QuiverRep) \<Rightarrow> 'a Factory \<Rightarrow> 'a QuiverRep \<Rightarrow> 'a QuiverRep \<Rightarrow>
     ('a QuiverHomSpace \<times> 'a Factory) result" where
  "QuiverHomSpace get_object fac domain codomain =
     ebind (create_key domain codomain) (\<lambda>key.
       case cache fac key of
         Some obj \<Rightarrow> Inr (obj, fac)
       | None \<Rightarrow>
           ebind (create_object get_object (next_id fac) key) (\<lambda>obj.
           Inr (obj, fac\<lparr>cache := (cache fac)(key \<mapsto> obj), next_id := next_id fac + 1\<rparr>)))"

section \<open>Homomorphism objects\<close>

text \<open>
  Modelled from the spec: the class \<^verbatim>\<open>QuiverRepHom\<close> (\<^verbatim>\<open>sage/quivers/morphism.py\<close>) is
  not among the sources; the module reads its attributes \<^verbatim>\<open>_quiver\<close>, \<^verbatim>\<open>_domain\<close>,
  \<^verbatim>\<open>_codomain\<close> and \<^verbatim>\<open>_vector\<close> and calls its constructor. The constructor is
  modelled from the documentation of \<^verbatim>\<open>_element_constructor_\<close> (lines 290-318): the
  domain and codomain are "required to be representations over the same quiver with the
  same base ring"; a dictionary gives matrices at vertices, "unspecified vertices are
  assigned the zero map, and keys not corresponding to vertices of the quiver are ignored.
  An error will be generated if these maps do not commute with the edge maps"; the
  coordinates are ordered as the comment of \<^verbatim>\<open>__init__\<close> says. A vector, as \<^verbatim>\<open>gens\<close>
  and \<^verbatim>\<open>an_element\<close> pass one, is kept as the coordinate vector; the documentation
  announces no check of it. The other forms of data (a list of images, an element, a
  homomorphism) are outside the model.
\<close>

record 'a QuiverRepHom =
  hom_quiver :: Quiver
  hom_domain :: "'a QuiverRep"
  hom_codomain :: "'a QuiverRep"
  hom_vector :: "'a list"

datatype 'a hom_data =
    DataNone
  | DataInt int
  | DataDict "vertex \<rightharpoonup> 'a Matrix"
  | DataVector "'a list"

definition flatten_block :: "nat \<Rightarrow> nat \<Rightarrow> 'a Matrix \<Rightarrow> 'a list" where
  "flatten_block n m A = concat (map (\<lambda>i. map (\<lambda>k. entry A i k) [0..<m]) [0..<n])"

definition dict_block ::
  "('a::zero) QuiverRep \<Rightarrow> 'a QuiverRep \<Rightarrow> (vertex \<rightharpoonup> 'a Matrix) \<Rightarrow> vertex \<Rightarrow> 'a list" where
  "dict_block M N d v =
     (case d v of None \<Rightarrow> replicate (dim_at M v * dim_at N v) 0
      | Some A \<Rightarrow> flatten_block (dim_at M v) (dim_at N v) A)"

definition dict_vector ::
  "('a::zero) QuiverRep \<Rightarrow> 'a QuiverRep \<Rightarrow> (vertex \<rightharpoonup> 'a Matrix) \<Rightarrow> 'a list" where
  "dict_vector M N d = concat (map (dict_block M N d) (vertices (rep_quiver M)))"

definition dict_fits :: "'a QuiverRep \<Rightarrow> 'a QuiverRep \<Rightarrow> (vertex \<rightharpoonup> 'a Matrix) \<Rightarrow> bool" where
  "dict_fits M N d =
     list_all (\<lambda>v. case d v of None \<Rightarrow> True
                | Some A \<Rightarrow> nrows A = dim_at M v \<and> ncols A = dim_at N v)
       (vertices (rep_quiver M))"

text \<open>
  Modelled from the spec: the constructor of \<^verbatim>\<open>QuiverRepHom\<close>, which is not among the
  sources, for a dictionary and for a vector as described above.
\<close>

definition QuiverRepHom ::
  "('a::comm_ring_1) QuiverRep \<Rightarrow> 'a QuiverRep \<Rightarrow> 'a hom_data \<Rightarrow> 'a QuiverRepHom result" where
  "QuiverRepHom domain codomain data =
     (if quiver_ne (rep_quiver domain) (rep_quiver codomain)
      then Inl (ValueError ''Representations are not over the same quiver.'')
      else if ring_ne (rep_base_ring codomain) (rep_base_ring domain)
      then Inl (ValueError ''Representations are not over the same base ring.'')
      else case data of
             DataDict d \<Rightarrow>
               if \<not> dict_fits domain codomain d then Inl TypeError
               else if is_hom domain codomain (dict_vector domain codomain d)
               then Inr \<lparr>hom_quiver = rep_quiver domain, hom_domain = domain,
                         hom_codomain = codomain,
                         hom_vector = dict_vector domain codomain d\<rparr>
               else Inl (ValueError ''The maps do not commute with the edge maps.'')
           | DataVector w \<Rightarrow>
               Inr \<lparr>hom_quiver = rep_quiver domain, hom_domain = domain,
                    hom_codomain = codomain, hom_vector = w\<rparr>
           | _ \<Rightarrow> Inl TypeError)"

section \<open>The methods of \<^verbatim>\<open>QuiverHomSpace_generic\<close>\<close>

text \<open>
  \<^verbatim>\<open>_element_constructor_\<close> (lines 370-374): \<^verbatim>\<open>if data is None or data == 0: data = {}\<close>.
  No dictionary equals \<open>0\<close>; a vector equals \<open>0\<close> when all its entries are zero.
\<close>

fun data_is_None :: "'a hom_data \<Rightarrow> bool" where
  "data_is_None DataNone = True"
| "data_is_None _ = False"

fun data_eq_zero :: "('a::zero) hom_data \<Rightarrow> bool" where
  "data_eq_zero (DataInt n) = (n = 0)"
| "data_eq_zero (DataVector w) = list_all (\<lambda>x. x = 0) w"
| "data_eq_zero _ = False"

definition element_constructor ::
  "('a::comm_ring_1) QuiverHomSpace \<Rightarrow> 'a hom_data \<Rightarrow> 'a QuiverRepHom result" where
  "element_constructor self data =
     (let data = (if data_is_None data \<or> data_eq_zero data then DataDict Map.empty else data)
      in QuiverRepHom (hs_domain self) (hs_codomain self) data)"

text \<open>
  \<^verbatim>\<open>__contains__\<close> (lines 406-416). The argument is any object: a \<^verbatim>\<open>QuiverRepHom\<close> or
  something else.
\<close>

datatype 'a pyobj = HomObj "'a QuiverRepHom" | OtherObj

fun contains :: "('a::comm_ring_1) QuiverHomSpace \<Rightarrow> 'a pyobj \<Rightarrow> bool result" where
  "contains self OtherObj = Inr False"
| "contains self (HomObj f) =
     (if quiver_ne (hs_quiver self) (hom_quiver f) \<or> rep_ne (hs_domain self) (hom_domain f)
         \<or> rep_ne (hs_codomain self) (hom_codomain f)
      then Inr False
      else Inr (space_contains (hs_space self) (hom_vector f)))"

text \<open>
  \<^verbatim>\<open>_identity\<close> (lines 437-442), and the public attribute \<^verbatim>\<open>identity\<close>, which exists
  only when \<^verbatim>\<open>__init__\<close> bound it: reading a missing attribute raises
  \<^verbatim>\<open>AttributeError\<close>.
\<close>

definition private_identity :: "('a::comm_ring_1) QuiverHomSpace \<Rightarrow> 'a QuiverRepHom result" where
  "private_identity self =
     ebind (for_loop (vertices (hs_quiver self)) (\<lambda>v maps.
              ebind (dict_get (rep_spaces (hs_domain self)) v) (\<lambda>d.
              Inr (maps(v \<mapsto> scalar_matrix d 1)))) Map.empty) (\<lambda>maps.
     QuiverRepHom (hs_domain self) (hs_codomain self) (DataDict maps))"

definition identity :: "('a::comm_ring_1) QuiverHomSpace \<Rightarrow> 'a QuiverRepHom result" where
  "identity self = (if hs_identity self then private_identity self else Inl AttributeError)"

text \<open>The access functions (lines 451-531) and \<^verbatim>\<open>hom\<close> (lines 653-654).\<close>

definition base_ring :: "'a QuiverHomSpace \<Rightarrow> BaseRing" where
  "base_ring self = hs_base self"

definition quiver :: "'a QuiverHomSpace \<Rightarrow> Quiver" where
  "quiver self = hs_quiver self"

definition domain :: "'a QuiverHomSpace \<Rightarrow> 'a QuiverRep" where
  "domain self = hs_domain self"

definition codomain :: "'a QuiverHomSpace \<Rightarrow> 'a QuiverRep" where
  "codomain self = hs_codomain self"

definition hom :: "('a::comm_ring_1) QuiverHomSpace \<Rightarrow> 'a hom_data \<Rightarrow> 'a QuiverRepHom result" where
  "hom self maps = QuiverRepHom (hs_domain self) (hs_codomain self) maps"

section \<open>The linear-algebra library\<close>

text \<open>
  Modelled from the spec: the operations \<^verbatim>\<open>gens()\<close>, \<^verbatim>\<open>coordinates(v)\<close>,
  \<^verbatim>\<open>dimension()\<close> and \<^verbatim>\<open>an_element()\<close> of the kernel space belong to the
  linear-algebra library, which is not among the sources. They are parameters of the
  model, a record of functions. \<open>linear_algebra_ok\<close> is what the spec says of them: the
  space has generators, as many as its dimension and linearly independent, and
  \<^verbatim>\<open>coordinates\<close> "expresses a map's vector in terms of exactly those generators", on
  every generator at least.
\<close>

record 'a LinearAlgebra =
  space_gens :: "'a Space \<Rightarrow> 'a list list"
  space_coordinates :: "'a Space \<Rightarrow> 'a list \<Rightarrow> 'a list result"
  space_dimension :: "'a Space \<Rightarrow> nat"
  space_an_element :: "'a Space \<Rightarrow> 'a list"

definition lincomb :: "nat \<Rightarrow> ('a::comm_ring_1) list \<Rightarrow> 'a list list \<Rightarrow> 'a list" where
  "lincomb n c B =
     map (\<lambda>r. sum_list (map (\<lambda>i. c ! i * B ! i ! r) [0..<length B])) [0..<n]"

definition unit_vector :: "nat \<Rightarrow> nat \<Rightarrow> ('a::comm_ring_1) list" where
  "unit_vector n i = map (\<lambda>k. if k = i then 1 else 0) [0..<n]"

definition independent :: "nat \<Rightarrow> ('a::comm_ring_1) list list \<Rightarrow> bool" where
  "independent n B =
     (\<forall>c. length c = length B \<and> lincomb n c B = replicate n 0
        \<longrightarrow> c = replicate (length B) 0)"

fun ambient_dim :: "'a Space \<Rightarrow> nat" where
  "ambient_dim (Kernel m) = nrows m"

text \<open>
  Modelled from the spec: what the module expects of the library's kernel space, the
  library itself not being among the sources.
\<close>

definition linear_algebra_ok :: "('a::comm_ring_1) LinearAlgebra \<Rightarrow> 'a Space \<Rightarrow> bool" where
  "linear_algebra_ok lib S =
     ((\<forall>b \<in> set (space_gens lib S). length b = ambient_dim S)
      \<and> independent (ambient_dim S) (space_gens lib S)
      \<and> space_dimension lib S = length (space_gens lib S)
      \<and> (\<forall>v c. space_coordinates lib S v = Inr c \<longrightarrow>
            length c = length (space_gens lib S)
            \<and> lincomb (ambient_dim S) c (space_gens lib S) = v)
      \<and> (\<forall>b \<in> set (space_gens lib S). \<exists>c. space_coordinates lib S b = Inr c))"

text \<open>A list comprehension whose element expression can raise.\<close>

fun map_result :: "('b \<Rightarrow> 'c result) \<Rightarrow> 'b list \<Rightarrow> 'c list result" where
  "map_result f [] = Inr []"
| "map_result f (x # xs) = ebind (f x) (\<lambda>y. ebind (map_result f xs) (\<lambda>ys. Inr (y # ys)))"

text \<open>
  \<^verbatim>\<open>dimension\<close> (line 558), \<^verbatim>\<open>gens\<close> (lines 578-579), \<^verbatim>\<open>coordinates\<close> (line 608) and
  \<^verbatim>\<open>an_element\<close> (lines 672-673).
\<close>

definition dimension :: "'a LinearAlgebra \<Rightarrow> 'a QuiverHomSpace \<Rightarrow> nat" where
  "dimension lib self = space_dimension lib (hs_space self)"

definition gens ::
  "('a::comm_ring_1) LinearAlgebra \<Rightarrow> 'a QuiverHomSpace \<Rightarrow> 'a QuiverRepHom list result" where
  "gens lib self =
     map_result (\<lambda>f. QuiverRepHom (hs_domain self) (hs_codomain self) (DataVector f))
       (space_gens lib (hs_space self))"

definition coordinates ::
  "'a LinearAlgebra \<Rightarrow> 'a QuiverHomSpace \<Rightarrow> 'a QuiverRepHom \<Rightarrow> 'a list result" where
  "coordinates lib self h = space_coordinates lib (hs_space self) (hom_vector h)"

definition an_element ::
  "('a::comm_ring_1) LinearAlgebra \<Rightarrow> 'a QuiverHomSpace \<Rightarrow> 'a QuiverRepHom result" where
  "an_element lib self =
     QuiverRepHom (hs_domain self) (hs_codomain self)
       (DataVector (space_an_element lib (hs_space self)))"

section \<open>Auxiliary definitions for the proofs\<close>

text \<open>The entry that a dictionary of vertex matrices gives at a vertex, and the dictionary
  that \<^verbatim>\<open>_identity\<close> builds.\<close>

definition dict_entry :: "(vertex \<rightharpoonup> ('a::zero) Matrix) \<Rightarrow> vertex \<Rightarrow> nat \<Rightarrow> nat \<Rightarrow> 'a" where
  "dict_entry d v i k = (case d v of None \<Rightarrow> 0 | Some A \<Rightarrow> entry A i k)"

definition identity_dict :: "('a::{zero,one}) QuiverRep \<Rightarrow> vertex \<rightharpoonup> 'a Matrix" where
  "identity_dict M =
     (\<lambda>v. if v \<in> set (vertices (rep_quiver M)) then Some (scalar_matrix (dim_at M v) 1) else None)"

section \<open>Example inputs\<close>

text \<open>
  The quiver of the module's examples, \<^verbatim>\<open>Quiver({1:{2:['a', 'b']}})\<close>, with the
  representation \<^verbatim>\<open>Q.P(ring, 1)\<close> (dimension 1 at vertex 1 and 2 at vertex 2, the edges
  mapping onto the two coordinates) and the simple representation \<^verbatim>\<open>Q.S(ring, 2)\<close>; a
  second object with the contents of the first; and a quiver with one vertex and one loop,
  with the identity map on a space of dimension 1.
\<close>

definition matrix_of_rows :: "nat \<Rightarrow> nat \<Rightarrow> 'a list list \<Rightarrow> 'a Matrix" where
  "matrix_of_rows n m rows = \<lparr>nrows = n, ncols = m, entry = (\<lambda>i j. rows ! i ! j)\<rparr>"

definition Q_ab :: Quiver where
  "Q_ab = \<lparr>quiver_id = 0, vertices = [1, 2], edges = [(1, 2, ''a''), (1, 2, ''b'')]\<rparr>"

definition ZZ :: BaseRing where
  "ZZ = \<lparr>ring_id = 1, ring_name = ''Integer Ring''\<rparr>"

definition P1 :: "int QuiverRep" where
  "P1 = \<lparr>rep_id = 2, rep_quiver = Q_ab, rep_base_ring = ZZ,
         rep_spaces = [1 \<mapsto> 1, 2 \<mapsto> 2],
         rep_maps = [(1, 2, ''a'') \<mapsto> matrix_of_rows 1 2 [[1, 0]],
                     (1, 2, ''b'') \<mapsto> matrix_of_rows 1 2 [[0, 1]]],
         rep_factory_data = Some 0\<rparr>"

definition P1_twin :: "int QuiverRep" where
  "P1_twin = P1\<lparr>rep_id := 5, rep_factory_data := None\<rparr>"

definition S2 :: "int QuiverRep" where
  "S2 = \<lparr>rep_id = 6, rep_quiver = Q_ab, rep_base_ring = ZZ,
         rep_spaces = [1 \<mapsto> 0, 2 \<mapsto> 1],
         rep_maps = [(1, 2, ''a'') \<mapsto> matrix_of_rows 0 1 [],
                     (1, 2, ''b'') \<mapsto> matrix_of_rows 0 1 []],
         rep_factory_data = Some 1\<rparr>"

definition Q_loop :: Quiver where
  "Q_loop = \<lparr>quiver_id = 3, vertices = [1], edges = [(1, 1, ''x'')]\<rparr>"

definition L1 :: "int QuiverRep" where
  "L1 = \<lparr>rep_id = 4, rep_quiver = Q_loop, rep_base_ring = ZZ,
         rep_spaces = [1 \<mapsto> 1],
         rep_maps = [(1, 1, ''x'') \<mapsto> matrix_of_rows 1 1 [[1]]],
         rep_factory_data = Some 2\<rparr>"

definition H_P1 :: "int QuiverHomSpace" where
  "H_P1 = \<lparr>hs_id = 0, hs_quiver = rep_quiver P1, hs_domain = P1, hs_codomain = P1,
           hs_space = Kernel (system_matrix P1 P1), hs_identity = True,
           hs_base = rep_base_ring P1\<rparr>"

definition hom_P1 :: "int list \<Rightarrow> int QuiverRepHom" where
  "hom_P1 w = \<lparr>hom_quiver = rep_quiver P1, hom_domain = P1, hom_codomain = P1, hom_vector = w\<rparr>"

definition hom_S2_P1 :: "int list \<Rightarrow> int QuiverRepHom" where
  "hom_S2_P1 w = \<lparr>hom_quiver = rep_quiver P1, hom_domain = S2, hom_codomain = P1, hom_vector = w\<rparr>"

text \<open>
  A factory with an empty cache, the store of the factory of representations, and a
  linear-algebra library for the examples: the kernel of the system of \<open>P1\<close> and \<open>P1\<close>
  has the one generator \<open>[1, 1, 0, 0, 1]\<close>.
\<close>

definition empty_factory :: "int Factory" where
  "empty_factory = \<lparr>cache = Map.empty, next_id = 0\<rparr>"

definition rep_store :: "nat \<Rightarrow> int QuiverRep" where
  "rep_store k = (if k = 0 then P1 else if k = 1 then S2 else L1)"

definition lib_P1 :: "int LinearAlgebra" where
  "lib_P1 =
     \<lparr>space_gens = (\<lambda>S. [[1, 1, 0, 0, 1]]),
      space_coordinates = (\<lambda>S v. if v = map (\<lambda>x. v ! 0 * x) [1, 1, 0, 0, 1]
                                   then Inr [v ! 0] else Inl ArithmeticError),
      space_dimension = (\<lambda>S. 1),
      space_an_element = (\<lambda>S. [0, 0, 0, 0, 0])\<rparr>"

text \<open>
  The hom space that the constructor returns for \<open>L1\<close>, its coefficient matrix (one
  variable, one equation, the coefficient \<open>- 1\<close>), and the identity of \<open>L1\<close>.
\<close>

definition cm_L1 :: "int Matrix" where
  "cm_L1 = \<lparr>nrows = 1, ncols = 1, entry = (\<lambda>r c. if r = 0 \<and> c = 0 then - 1 else 0)\<rparr>"

definition H_L1 :: "int QuiverHomSpace" where
  "H_L1 = \<lparr>hs_id = 0, hs_quiver = Q_loop, hs_domain = L1, hs_codomain = L1,
           hs_space = Kernel cm_L1, hs_identity = True, hs_base = ZZ\<rparr>"

definition id_L1 :: "int QuiverRepHom" where
  "id_L1 = \<lparr>hom_quiver = Q_loop, hom_domain = L1, hom_codomain = L1, hom_vector = [1]\<rparr>"

text \<open>
  The hom space that the constructor returns for \<open>P1\<close> and \<open>P1_twin\<close>, two objects
  with the same contents.
\<close>

definition H_P1_twin :: "int QuiverHomSpace" where
  "H_P1_twin = \<lparr>hs_id = 0, hs_quiver = Q_ab, hs_domain = P1, hs_codomain = P1_twin,
           hs_space = Kernel (system_matrix P1 P1_twin), hs_identity = False,
           hs_base = ZZ\<rparr>"

section \<open>Lemmas\<close>

subsection \<open>The error monad and loops\<close>

lemma ebind_Inr [simp]: "ebind (Inr x) f = f x"
  by (simp add: ebind_def)

lemma ebind_Inl [simp]: "ebind (Inl e) f = Inl e"
  by (simp add: ebind_def)

lemma ebind_eq_Inr: "ebind m f = Inr y \<longleftrightarrow> (\<exists>x. m = Inr x \<and> f x = Inr y)"
  by (cases m) simp_all

lemma for_loop_append:
  "for_loop (xs @ ys) body s = ebind (for_loop xs body s) (for_loop ys body)"
  by (induction xs arbitrary: s) (auto simp: ebind_def split: sum.splits)

lemma for_loop_snoc:
  "for_loop (xs @ [x]) body s = ebind (for_loop xs body s) (body x)"
  by (simp add: for_loop_append ebind_def split: sum.splits)

text \<open>The invariant rule for a loop: \<open>I k\<close> holds before iteration \<open>k\<close>.\<close>

lemma for_loop_rule:
  assumes "I 0 s0"
    and "\<And>k s. k < length xs \<Longrightarrow> I k s \<Longrightarrow> \<exists>s'. body (xs ! k) s = Inr s' \<and> I (Suc k) s'"
  shows "\<exists>s'. for_loop xs body s0 = Inr s' \<and> I (length xs) s'"
  using assms
proof (induction xs arbitrary: I rule: rev_induct)
  case Nil
  then show ?case by simp
next
  case (snoc x xs)
  have "\<exists>s'. for_loop xs body s0 = Inr s' \<and> I (length xs) s'"
  proof (rule snoc.IH)
    show "I 0 s0" by (rule snoc.prems(1))
  next
    fix k s assume k: "k < length xs" and "I k s"
    then have "\<exists>s'. body ((xs @ [x]) ! k) s = Inr s' \<and> I (Suc k) s'"
      using snoc.prems(2) [of k s] by simp
    then show "\<exists>s'. body (xs ! k) s = Inr s' \<and> I (Suc k) s'"
      using k by (simp add: nth_append)
  qed
  then obtain s1 where s1: "for_loop xs body s0 = Inr s1" "I (length xs) s1" by blast
  have "\<exists>s'. body ((xs @ [x]) ! length xs) s1 = Inr s' \<and> I (Suc (length xs)) s'"
    using snoc.prems(2) [of "length xs" s1] s1(2) by simp
  then show ?case using s1(1) by (simp add: for_loop_snoc)
qed

lemma for_range_rule:
  assumes "I a s0" and "a \<le> b"
    and "\<And>k s. a \<le> k \<Longrightarrow> k < b \<Longrightarrow> I k s \<Longrightarrow> \<exists>s'. body k s = Inr s' \<and> I (Suc k) s'"
  shows "\<exists>s'. for_loop [a..<b] body s0 = Inr s' \<and> I b s'"
proof -
  have "\<exists>s'. for_loop [a..<b] body s0 = Inr s' \<and> (\<lambda>k. I (a + k)) (length [a..<b]) s'"
  proof (rule for_loop_rule)
    show "I (a + 0) s0" using assms(1) by simp
  next
    fix k s assume "k < length [a..<b]" and "I (a + k) s"
    then show "\<exists>s'. body ([a..<b] ! k) s = Inr s' \<and> I (a + Suc k) s'"
      using assms(3) [of "a + k" s] by simp
  qed
  then show ?thesis using assms(2) by simp
qed

subsection \<open>Lists and sums\<close>

lemma list_index_nth:
  "distinct xs \<Longrightarrow> k < length xs \<Longrightarrow> list_index xs (xs ! k) = Inr k"
proof (induction xs arbitrary: k)
  case Nil
  then show ?case by simp
next
  case (Cons x xs)
  show ?case
  proof (cases k)
    case 0
    then show ?thesis by simp
  next
    case (Suc m)
    then have "xs ! m \<noteq> x" using Cons.prems by auto
    then show ?thesis using Suc Cons by auto
  qed
qed

lemma list_index_mem:
  "v \<in> set xs \<Longrightarrow> \<exists>k. list_index xs v = Inr k \<and> k < length xs \<and> xs ! k = v"
  by (induction xs) auto

subsection \<open>The first loops of the constructor\<close>

lemma dict_get_space:
  "rep_spaces M v \<noteq> None \<Longrightarrow> dict_get (rep_spaces M) v = Inr (dim_at M v)"
  by (auto simp: dict_get_def dim_at_def)

lemma varstart_dims_result:
  assumes d: "distinct verts"
    and m: "\<forall>v \<in> set verts. rep_spaces M v \<noteq> None"
    and n: "\<forall>v \<in> set verts. rep_spaces N v \<noteq> None"
  shows "varstart_dims M N verts (replicate (length verts + 1) 0)
           = Inr (0 # map (\<lambda>v. dim_at M v * dim_at N v) verts)"
proof -
  let ?d = "\<lambda>v. dim_at M v * dim_at N v"
  let ?I = "\<lambda>k vs. vs = 0 # map ?d (take k verts) @ replicate (length verts - k) 0"
  let ?body = "\<lambda>v varstart.
       ebind (dict_get (rep_spaces M) v) (\<lambda>dm.
       ebind (dict_get (rep_spaces N) v) (\<lambda>dn.
       ebind (list_index verts v) (\<lambda>i.
       list_set varstart (i + 1) (dm * dn))))"
  have "\<exists>s'. for_loop verts ?body (replicate (length verts + 1) 0) = Inr s'
          \<and> ?I (length verts) s'"
  proof (rule for_loop_rule [where I = ?I])
    show "?I 0 (replicate (length verts + 1) 0)" by simp
  next
    fix k vs assume k: "k < length verts" and I: "?I k vs"
    have mem: "verts ! k \<in> set verts" using k by simp
    have len: "length vs = length verts + 1" using I k by simp
    have upd: "vs[Suc k := ?d (verts ! k)] =
        0 # map ?d (take (Suc k) verts) @ replicate (length verts - Suc k) 0"
    proof -
      have r: "replicate (length verts - k) (0::nat) = 0 # replicate (length verts - Suc k) 0"
        using k by (metis Suc_diff_Suc replicate_Suc)
      have "vs[Suc k := ?d (verts ! k)] =
          0 # (map ?d (take k verts) @ (0 # replicate (length verts - Suc k) 0))[k := ?d (verts ! k)]"
        using I r by simp
      also have "(map ?d (take k verts) @ (0 # replicate (length verts - Suc k) 0))[k := ?d (verts ! k)]
          = map ?d (take k verts) @ (?d (verts ! k) # replicate (length verts - Suc k) 0)"
        using k by (simp add: list_update_append)
      also have "\<dots> = map ?d (take (Suc k) verts) @ replicate (length verts - Suc k) 0"
        using k by (simp add: take_Suc_conv_app_nth)
      finally show ?thesis .
    qed
    show "\<exists>s'. ?body (verts ! k) vs = Inr s' \<and> ?I (Suc k) s'"
      using mem m n k d len upd
      by (simp add: dict_get_space list_index_nth list_set_def)
  qed
  then show ?thesis by (simp add: varstart_dims_def)
qed

lemma count_equations_acc:
  assumes "\<forall>e \<in> set es. rep_spaces M (fst e) \<noteq> None \<and> rep_spaces N (fst (snd e)) \<noteq> None"
  shows "for_loop es (\<lambda>e eqs.
       ebind (dict_get (rep_spaces M) (fst e)) (\<lambda>dm.
       ebind (dict_get (rep_spaces N) (fst (snd e))) (\<lambda>dn.
       Inr (eqs + dm * dn)))) acc
     = Inr (acc + sum_list (map (\<lambda>e. dim_at M (fst e) * dim_at N (fst (snd e))) es))"
  using assms by (induction es arbitrary: acc) (simp_all add: dict_get_space)

lemma count_equations_result:
  assumes "\<forall>e \<in> set es. rep_spaces M (fst e) \<noteq> None \<and> rep_spaces N (fst (snd e)) \<noteq> None"
  shows "count_equations M N es
     = Inr (sum_list (map (\<lambda>e. dim_at M (fst e) * dim_at N (fst (snd e))) es))"
  using count_equations_acc [OF assms, of 0] by (simp add: count_equations_def)

lemma sum_list_take_Suc:
  "i < length xs \<Longrightarrow> sum_list (take (Suc i) xs) = sum_list (take i xs) + (xs ! i :: nat)"
  by (simp add: take_Suc_conv_app_nth)

lemma varstart_cumulate_result:
  "varstart_cumulate (0 # ds) = Inr (map (\<lambda>i. sum_list (take i ds)) [0..<length ds + 1])"
proof (cases "length ds < 1")
  case True
  then show ?thesis by (simp add: varstart_cumulate_def)
next
  case False
  let ?n = "length ds"
  let ?I = "\<lambda>m vs. vs = map (\<lambda>i. sum_list (take i ds)) [0..<m] @ drop m (0 # ds)"
  let ?body = "\<lambda>i varstart.
       ebind (list_get varstart i) (\<lambda>a.
       ebind (list_get varstart (i - 1)) (\<lambda>b.
       list_set varstart i (a + b)))"
  have "\<exists>s'. for_loop [2..<Suc ?n] ?body (0 # ds) = Inr s' \<and> ?I (Suc ?n) s'"
  proof (rule for_range_rule [where I = ?I])
    have "[0..<2] = [0, Suc 0]" by (simp add: upt_rec)
    moreover have "ds = hd ds # tl ds" using False by (cases ds) auto
    ultimately show "?I 2 (0 # ds)"
      by (metis (no_types, lifting) One_nat_def Suc_1 add.right_neutral append_Cons
          append_Nil drop0 drop_Suc_Cons list.simps(8,9) sum_list.Cons sum_list.Nil take_0
          take_Suc_Cons)
  next
    show "2 \<le> Suc ?n" using False by (cases ds) auto
  next
    fix k vs assume k: "2 \<le> k" "k < Suc ?n" and I: "?I k vs"
    have len: "length vs = Suc ?n" using I k by simp
    have a: "vs ! k = ds ! (k - 1)"
      using I k by (simp add: nth_append nth_Cons')
    have b: "vs ! (k - 1) = sum_list (take (k - 1) ds)"
      using I k by (simp add: nth_append)
    have dr: "drop k (0 # ds) = ds ! (k - 1) # drop (Suc k) (0 # ds)"
      using k by (metis Cons_nth_drop_Suc One_nat_def Suc_le_lessD Suc_pred
          drop_Suc_Cons length_Cons less_Suc_eq_0_disj not_less_eq numeral_2_eq_2
          nth_Cons_pos zero_less_Suc)
    have "vs[k := vs ! k + vs ! (k - 1)] =
       map (\<lambda>i. sum_list (take i ds)) [0..<k] @ (sum_list (take k ds) # drop (Suc k) (0 # ds))"
    proof -
      have "sum_list (take k ds) = sum_list (take (k - 1) ds) + ds ! (k - 1)"
        using sum_list_take_Suc [of "k - 1" ds] k by simp
      then show ?thesis using I dr a b
        by (simp add: list_update_append)
    qed
    then have "vs[k := vs ! k + vs ! (k - 1)] = 
        map (\<lambda>i. sum_list (take i ds)) [0..<Suc k] @ drop (Suc k) (0 # ds)"
      by simp
    then show "\<exists>s'. ?body k vs = Inr s' \<and> ?I (Suc k) s'"
      using len k by (simp add: list_get_def list_set_def)
  qed
  then show ?thesis by (simp add: varstart_cumulate_def)
qed

subsection \<open>One equation\<close>

lemma for_loop_cong:
  "(\<And>x s. x \<in> set xs \<Longrightarrow> body x s = body' x s) \<Longrightarrow> for_loop xs body s = for_loop xs body' s"
  by (induction xs arbitrary: s) (auto simp: ebind_def split: sum.splits)

lemma for_loop_map:
  "for_loop (map f ys) body s = for_loop ys (\<lambda>y. body (f y)) s"
  by (induction ys arbitrary: s) (auto simp: ebind_def split: sum.splits)

lemma for_loop_nested:
  "for_loop xs (\<lambda>x s. for_loop (g x) (h x) s) s0 =
   for_loop (concat (map (\<lambda>x. map (Pair x) (g x)) xs)) (\<lambda>p s. h (fst p) (snd p) s) s0"
proof (induction xs arbitrary: s0)
  case Nil
  then show ?case by simp
next
  case (Cons x xs)
  have "for_loop (map (Pair x) (g x)) (\<lambda>p s. h (fst p) (snd p) s) s0 = for_loop (g x) (h x) s0"
    by (simp add: for_loop_map)
  then show ?case using Cons
    by (simp add: for_loop_append ebind_def split: sum.splits)
qed

lemma write_rows_0 [simp]: "write_rows f g 0 col = col"
  by (simp add: write_rows_def)

lemma write_rows_Suc [simp]: "write_rows f g (Suc n) col = (write_rows f g n col)(f n := g n)"
  by (simp add: write_rows_def)

lemma column_loop:
  assumes "\<forall>k<n. f k < nrows cm" and "eqn < ncols cm"
  shows "for_loop [0..<n] (\<lambda>k cm. set_entry cm (f k) eqn (g k)) cm =
     Inr (cm\<lparr>entry := (\<lambda>r c. if c = eqn then write_rows f g n (\<lambda>r. entry cm r eqn) r
                                else entry cm r c)\<rparr>)"
  using assms
proof (induction n)
  case 0
  have h: "(\<lambda>r c. if c = eqn then write_rows f g 0 (\<lambda>r. entry cm r eqn) r else entry cm r c)
      = entry cm"
    by (auto simp: fun_eq_iff)
  show ?case by (simp add: h)
next
  case (Suc n)
  let ?E = "\<lambda>r c. if c = eqn then write_rows f g n (\<lambda>r. entry cm r eqn) r else entry cm r c"
  have h: "(?E)(f n := (?E (f n))(eqn := g n)) =
      (\<lambda>r c. if c = eqn then write_rows f g (Suc n) (\<lambda>r. entry cm r eqn) r else entry cm r c)"
    by (auto simp: fun_eq_iff)
  have "for_loop [0..<n] (\<lambda>k cm. set_entry cm (f k) eqn (g k)) cm = Inr (cm\<lparr>entry := ?E\<rparr>)"
    using Suc by simp
  then show ?case using Suc.prems h
    by (simp add: for_loop_snoc set_entry_def del: write_rows_Suc)
qed

lemma write_equation_result:
  assumes s: "list_index verts (fst e) = Inr s" "s < length varstart"
    and t: "list_index verts (fst (snd e)) = Inr t" "t < length varstart"
    and i: "i < nrows X" and j: "j < ncols Y" and c: "eqn < ncols cm"
    and rs: "\<forall>k<nrows Y. varstart ! s + i * nrows Y + k < nrows cm"
    and rt: "\<forall>k<ncols X. varstart ! t + k * ncols Y + j < nrows cm"
  shows "write_equation verts varstart e X Y i j (cm, eqn) =
     Inr (cm\<lparr>entry := (\<lambda>r c. if c = eqn
              then equation_column (varstart ! s) (varstart ! t) X Y i j (\<lambda>r. entry cm r eqn) r
              else entry cm r c)\<rparr>, eqn + 1)"
proof -
  let ?f1 = "\<lambda>k. varstart ! s + i * nrows Y + k"
  let ?g1 = "\<lambda>k. entry Y k j"
  let ?f2 = "\<lambda>k. varstart ! t + k * ncols Y + j"
  let ?g2 = "\<lambda>k. - entry X i k"
  let ?cm1 = "cm\<lparr>entry := (\<lambda>r c. if c = eqn then write_rows ?f1 ?g1 (nrows Y) (\<lambda>r. entry cm r eqn) r
                                else entry cm r c)\<rparr>"
  have l1: "for_loop [0..<nrows Y] (\<lambda>k coef_mat.
              ebind (get_entry Y k j) (\<lambda>y.
              ebind (list_index verts (fst e)) (\<lambda>s.
              ebind (list_get varstart s) (\<lambda>vs.
              set_entry coef_mat (vs + i * nrows Y + k) eqn y)))) cm = Inr ?cm1"
  proof -
    have "for_loop [0..<nrows Y] (\<lambda>k coef_mat.
              ebind (get_entry Y k j) (\<lambda>y.
              ebind (list_index verts (fst e)) (\<lambda>s.
              ebind (list_get varstart s) (\<lambda>vs.
              set_entry coef_mat (vs + i * nrows Y + k) eqn y)))) cm
        = for_loop [0..<nrows Y] (\<lambda>k cm. set_entry cm (?f1 k) eqn (?g1 k)) cm"
      by (rule for_loop_cong) (use s j in \<open>simp add: get_entry_def list_get_def\<close>)
    then show ?thesis using column_loop [of "nrows Y" ?f1 cm eqn ?g1] rs c by simp
  qed
  have l2: "for_loop [0..<ncols X] (\<lambda>k coef_mat.
              ebind (get_entry X i k) (\<lambda>x.
              ebind (list_index verts (fst (snd e))) (\<lambda>t.
              ebind (list_get varstart t) (\<lambda>vt.
              set_entry coef_mat (vt + k * ncols Y + j) eqn (- x))))) ?cm1
       = Inr (?cm1\<lparr>entry := (\<lambda>r c. if c = eqn
                then write_rows ?f2 ?g2 (ncols X) (\<lambda>r. entry ?cm1 r eqn) r
                else entry ?cm1 r c)\<rparr>)"
  proof -
    have "for_loop [0..<ncols X] (\<lambda>k coef_mat.
              ebind (get_entry X i k) (\<lambda>x.
              ebind (list_index verts (fst (snd e))) (\<lambda>t.
              ebind (list_get varstart t) (\<lambda>vt.
              set_entry coef_mat (vt + k * ncols Y + j) eqn (- x))))) ?cm1
        = for_loop [0..<ncols X] (\<lambda>k cm. set_entry cm (?f2 k) eqn (?g2 k)) ?cm1"
      by (rule for_loop_cong) (use t i in \<open>simp add: get_entry_def list_get_def\<close>)
    then show ?thesis using column_loop [of "ncols X" ?f2 ?cm1 eqn ?g2] rt c by simp
  qed
  have e: "(\<lambda>r c. if c = eqn then write_rows ?f2 ?g2 (ncols X) (\<lambda>r. entry ?cm1 r eqn) r
                else entry ?cm1 r c)
      = (\<lambda>r c. if c = eqn
              then equation_column (varstart ! s) (varstart ! t) X Y i j (\<lambda>r. entry cm r eqn) r
              else entry cm r c)"
    by (auto simp: fun_eq_iff equation_column_def)
  show ?thesis
    unfolding write_equation_def using l1 l2 e by simp
qed

subsection \<open>The loops over the equations, flattened\<close>

lemma dict_get_map:
  "rep_maps M e \<noteq> None \<Longrightarrow> dict_get (rep_maps M) e = Inr (edge_matrix M e)"
  by (auto simp: dict_get_def edge_matrix_def)

lemma fill_coef_mat_flat:
  assumes "\<forall>e \<in> set es. rep_maps M e \<noteq> None \<and> rep_maps N e \<noteq> None"
  shows "fill_coef_mat M N verts varstart es cm0 =
     for_loop (equations M N es)
       (\<lambda>t st. write_equation verts varstart (fst t) (edge_matrix M (fst t))
                 (edge_matrix N (fst t)) (fst (snd t)) (snd (snd t)) st) (cm0, 0)"
proof -
  let ?W = "\<lambda>e i j st. write_equation verts varstart e (edge_matrix M e) (edge_matrix N e) i j st"
  let ?G = "\<lambda>e. concat (map (\<lambda>i. map (Pair i) [0..<ncols (edge_matrix N e)])
                  [0..<nrows (edge_matrix M e)])"
  have "fill_coef_mat M N verts varstart es cm0 =
      for_loop es (\<lambda>e st. for_loop [0..<nrows (edge_matrix M e)] (\<lambda>i st.
         for_loop [0..<ncols (edge_matrix N e)] (\<lambda>j st. ?W e i j st) st) st) (cm0, 0)"
    unfolding fill_coef_mat_def
    by (rule for_loop_cong) (use assms in \<open>simp add: dict_get_map\<close>)
  also have "\<dots> = for_loop es (\<lambda>e st. for_loop (?G e) (\<lambda>p st. ?W e (fst p) (snd p) st) st) (cm0, 0)"
    by (rule for_loop_cong)
       (simp add: for_loop_nested [where g = "\<lambda>i. [0..<ncols (edge_matrix N e)]" for e])
  also have "\<dots> = for_loop (concat (map (\<lambda>e. map (Pair e) (?G e)) es))
       (\<lambda>t st. ?W (fst t) (fst (snd t)) (snd (snd t)) st) (cm0, 0)"
    by (rule for_loop_nested [where g = ?G and h = "\<lambda>e p st. ?W e (fst p) (snd p) st"])
  finally show ?thesis by (simp add: equations_def)
qed

lemma length_pairs: "length (concat (map (\<lambda>i. map (Pair i) [0..<b]) [0..<a])) = a * b"
  by (induction a) simp_all

lemma length_equations:
  "length (equations M N es) =
     sum_list (map (\<lambda>e. nrows (edge_matrix M e) * ncols (edge_matrix N e)) es)"
  by (induction es) (simp_all add: equations_def length_pairs)

lemma set_pairs: "set (concat (map (\<lambda>i. map (Pair i) [0..<b]) [0..<a])) = {(i, j). i < a \<and> j < b}"
  by auto

lemma set_equations:
  "t \<in> set (equations M N es) \<longleftrightarrow>
     fst t \<in> set es \<and> fst (snd t) < nrows (edge_matrix M (fst t))
       \<and> snd (snd t) < ncols (edge_matrix N (fst t))"
proof -
  have "set (equations M N es) =
      (\<Union>e \<in> set es. Pair e ` {(i, j). i < nrows (edge_matrix M e) \<and> j < ncols (edge_matrix N e)})"
    unfolding equations_def set_concat set_map image_image set_pairs [symmetric] by simp
  then show ?thesis by (cases t) force
qed

subsection \<open>Offsets of the variables\<close>

lemma takeWhile_index:
  "list_index xs v = Inr s \<Longrightarrow> takeWhile (\<lambda>u. u \<noteq> v) xs = take s xs"
proof (induction xs arbitrary: s)
  case Nil
  then show ?case by simp
next
  case (Cons x xs)
  then show ?case by (auto simp: ebind_eq_Inr split: if_splits)
qed

lemma block_index: "i < a \<Longrightarrow> k < b \<Longrightarrow> i * b + k < a * (b::nat)"
proof -
  assume i: "i < a" and k: "k < b"
  have "i * b + k < Suc i * b" using k by simp
  also have "\<dots> \<le> a * b" using i by (simp add: Suc_leI mult_le_mono1 del: mult_Suc)
  finally show ?thesis .
qed

lemma sum_list_take_le: "sum_list (take k xs) \<le> sum_list (xs :: nat list)"
proof -
  have "sum_list xs = sum_list (take k xs) + sum_list (drop k xs)"
    by (metis append_take_drop_id sum_list_append)
  then show ?thesis by simp
qed

lemma block_in_range:
  assumes "s < length ds" and "off < ds ! s"
  shows "sum_list (take s ds) + off < sum_list (ds :: nat list)"
proof -
  have "sum_list (take s ds) + off < sum_list (take (Suc s) ds)"
    using assms by (simp add: sum_list_take_Suc)
  also have "\<dots> \<le> sum_list ds" by (rule sum_list_take_le)
  finally show ?thesis .
qed

subsection \<open>The coefficient matrix that the constructor builds\<close>

lemma rep_ok_space: "rep_ok Q M \<Longrightarrow> v \<in> set (vertices Q) \<Longrightarrow> rep_spaces M v \<noteq> None"
  by (simp add: rep_ok_def list_all_iff)

lemma rep_ok_map:
  "rep_ok Q M \<Longrightarrow> e \<in> set (edges Q) \<Longrightarrow>
     rep_maps M e \<noteq> None \<and> nrows (edge_matrix M e) = dim_at M (fst e)
       \<and> ncols (edge_matrix M e) = dim_at M (fst (snd e))"
  by (auto simp: rep_ok_def list_all_iff edge_matrix_def split: option.splits)

lemma quiver_ok_edge:
  "quiver_ok Q \<Longrightarrow> e \<in> set (edges Q) \<Longrightarrow>
     fst e \<in> set (vertices Q) \<and> fst (snd e) \<in> set (vertices Q)"
  by (simp add: quiver_ok_def list_all_iff)

lemma fill_coef_mat_result:
  fixes M N :: "('a::{zero,uminus}) QuiverRep"
  assumes q: "quiver_ok (rep_quiver M)"
    and m: "rep_ok (rep_quiver M) M" and n: "rep_ok (rep_quiver M) N"
  defines "verts \<equiv> vertices (rep_quiver M)"
  defines "ds \<equiv> map (\<lambda>v. dim_at M v * dim_at N v) (vertices (rep_quiver M))"
  defines "eqs \<equiv> equations M N (edges (rep_quiver M))"
  shows "fill_coef_mat M N verts (map (\<lambda>i. sum_list (take i ds)) [0..<length ds + 1])
           (edges (rep_quiver M)) (zero_matrix (sum_list ds) (length eqs))
         = Inr (system_matrix M N, length eqs)"
proof -
  let ?es = "edges (rep_quiver M)"
  let ?vs = "map (\<lambda>i. sum_list (take i ds)) [0..<length ds + 1]"
  let ?body = "\<lambda>t st. write_equation verts ?vs (fst t) (edge_matrix M (fst t))
                 (edge_matrix N (fst t)) (fst (snd t)) (snd (snd t)) st"
  let ?A = "\<lambda>p. \<lparr>nrows = sum_list ds, ncols = length eqs,
      entry = (\<lambda>r c. if c < p then equation_of M N (eqs ! c) r else (0::'a))\<rparr>"
  let ?I = "\<lambda>p st. st = (?A p, p)"
  have len: "length ds = length verts" by (simp add: ds_def verts_def)
  have "\<exists>s'. for_loop eqs ?body (zero_matrix (sum_list ds) (length eqs), 0) = Inr s'
           \<and> ?I (length eqs) s'"
  proof (rule for_loop_rule [where I = ?I])
    show "?I 0 (zero_matrix (sum_list ds) (length eqs), 0)"
      by (simp add: zero_matrix_def)
  next
    fix p st assume p: "p < length eqs" and I: "?I p st"
    obtain e i j where t: "eqs ! p = (e, i, j)" by (cases "eqs ! p") auto
    have "eqs ! p \<in> set eqs" using p by simp
    then have e: "e \<in> set ?es" and i: "i < nrows (edge_matrix M e)"
      and j: "j < ncols (edge_matrix N e)"
      using t by (simp_all add: eqs_def set_equations)
    have src: "fst e \<in> set verts" and tgt: "fst (snd e) \<in> set verts"
      using quiver_ok_edge [OF q e] by (simp_all add: verts_def)
    obtain s where s: "list_index verts (fst e) = Inr s" "s < length verts" "verts ! s = fst e"
      using list_index_mem [OF src] by blast
    obtain t' where t': "list_index verts (fst (snd e)) = Inr t'" "t' < length verts"
      "verts ! t' = fst (snd e)"
      using list_index_mem [OF tgt] by blast
    have Xd: "nrows (edge_matrix M e) = dim_at M (fst e)"
      "ncols (edge_matrix M e) = dim_at M (fst (snd e))"
      using rep_ok_map [OF m e] by simp_all
    have Yd: "nrows (edge_matrix N e) = dim_at N (fst e)"
      "ncols (edge_matrix N e) = dim_at N (fst (snd e))"
      using rep_ok_map [OF n e] by simp_all
    have vs_s: "?vs ! s = sum_list (take s ds)"
      using s(2) len by (simp add: nth_append del: upt_Suc)
    have vs_t: "?vs ! t' = sum_list (take t' ds)"
      using t'(2) len by (simp add: nth_append del: upt_Suc)
    have ds_s: "ds ! s = dim_at M (fst e) * dim_at N (fst e)"
      using s by (simp add: ds_def verts_def)
    have ds_t: "ds ! t' = dim_at M (fst (snd e)) * dim_at N (fst (snd e))"
      using t' by (simp add: ds_def verts_def)
    have rs: "\<forall>k<nrows (edge_matrix N e).
        ?vs ! s + i * nrows (edge_matrix N e) + k < nrows (?A p)"
    proof (intro allI impI)
      fix k assume "k < nrows (edge_matrix N e)"
      then have "i * nrows (edge_matrix N e) + k < ds ! s"
        using i by (simp add: ds_s Xd Yd block_index)
      then show "?vs ! s + i * nrows (edge_matrix N e) + k < nrows (?A p)"
        using block_in_range [of s ds] s(2) len vs_s by (simp add: add.assoc)
    qed
    have rt: "\<forall>k<ncols (edge_matrix M e).
        ?vs ! t' + k * ncols (edge_matrix N e) + j < nrows (?A p)"
    proof (intro allI impI)
      fix k assume "k < ncols (edge_matrix M e)"
      then have "k * ncols (edge_matrix N e) + j < ds ! t'"
        using j by (simp add: ds_t Xd Yd block_index)
      then show "?vs ! t' + k * ncols (edge_matrix N e) + j < nrows (?A p)"
        using block_in_range [of t' ds] t'(2) len vs_t by (simp add: add.assoc)
    qed
    have off_s: "?vs ! s = var_offset M N (fst e)"
      using takeWhile_index [OF s(1)] vs_s
      by (simp add: var_offset_def ds_def verts_def take_map)
    have off_t: "?vs ! t' = var_offset M N (fst (snd e))"
      using takeWhile_index [OF t'(1)] vs_t
      by (simp add: var_offset_def ds_def verts_def take_map)
    have w: "write_equation verts ?vs e (edge_matrix M e) (edge_matrix N e) i j (?A p, p) =
       Inr ((?A p)\<lparr>entry := (\<lambda>r c. if c = p
              then equation_column (?vs ! s) (?vs ! t') (edge_matrix M e) (edge_matrix N e) i j
                     (\<lambda>r. entry (?A p) r p) r
              else entry (?A p) r c)\<rparr>, p + 1)"
    proof (rule write_equation_result)
      show "list_index verts (fst e) = Inr s" by (rule s(1))
      show "s < length ?vs" using s(2) len by simp
      show "list_index verts (fst (snd e)) = Inr t'" by (rule t'(1))
      show "t' < length ?vs" using t'(2) len by simp
      show "i < nrows (edge_matrix M e)" by (rule i)
      show "j < ncols (edge_matrix N e)" by (rule j)
      show "p < ncols (?A p)" using p by simp
      show "\<forall>k<nrows (edge_matrix N e).
        ?vs ! s + i * nrows (edge_matrix N e) + k < nrows (?A p)" by (rule rs)
      show "\<forall>k<ncols (edge_matrix M e).
        ?vs ! t' + k * ncols (edge_matrix N e) + j < nrows (?A p)" by (rule rt)
    qed
    have z: "(\<lambda>r. entry (?A p) r p) = (\<lambda>r. 0)" by simp
    have eq: "(?A p)\<lparr>entry := (\<lambda>r c. if c = p
              then equation_column (?vs ! s) (?vs ! t') (edge_matrix M e) (edge_matrix N e) i j
                     (\<lambda>r. entry (?A p) r p) r
              else entry (?A p) r c)\<rparr> = ?A (Suc p)"
      unfolding z off_s off_t
      by (auto simp: fun_eq_iff equation_of_def t less_Suc_eq)
    show "\<exists>s'. ?body (eqs ! p) st = Inr s' \<and> ?I (Suc p) s'"
      using I w eq by (simp add: t)
  qed
  then have "for_loop eqs ?body (zero_matrix (sum_list ds) (length eqs), 0)
      = Inr (?A (length eqs), length eqs)" by auto
  moreover have "?A (length eqs) = system_matrix M N"
    unfolding system_matrix_def ds_def eqs_def by simp
  moreover have "\<forall>e \<in> set ?es. rep_maps M e \<noteq> None \<and> rep_maps N e \<noteq> None"
    using rep_ok_map [OF m] rep_ok_map [OF n] by blast
  ultimately show ?thesis
    by (simp add: fill_coef_mat_flat eqs_def)
qed

lemma length_equations_dims:
  assumes m: "rep_ok (rep_quiver M) M" and n: "rep_ok (rep_quiver M) N"
  shows "length (equations M N (edges (rep_quiver M))) =
     sum_list (map (\<lambda>e. dim_at M (fst e) * dim_at N (fst (snd e))) (edges (rep_quiver M)))"
proof -
  have "map (\<lambda>e. nrows (edge_matrix M e) * ncols (edge_matrix N e)) (edges (rep_quiver M))
      = map (\<lambda>e. dim_at M (fst e) * dim_at N (fst (snd e))) (edges (rep_quiver M))"
    using rep_ok_map [OF m] rep_ok_map [OF n] by simp
  then show ?thesis unfolding length_equations by (rule arg_cong)
qed

lemma build_system_result:
  fixes M N :: "('a::{zero,uminus}) QuiverRep"
  assumes q: "quiver_ok (rep_quiver M)"
    and m: "rep_ok (rep_quiver M) M" and n: "rep_ok (rep_quiver M) N"
  shows "build_system M N = Inr (system_matrix M N, ncols (system_matrix M N))"
proof -
  let ?verts = "vertices (rep_quiver M)"
  let ?es = "edges (rep_quiver M)"
  let ?ds = "map (\<lambda>v. dim_at M v * dim_at N v) ?verts"
  let ?vs = "map (\<lambda>i. sum_list (take i ?ds)) [0..<length ?ds + 1]"
  have 1: "varstart_dims M N ?verts (replicate (length ?verts + 1) 0) = Inr (0 # ?ds)"
    using q rep_ok_space [OF m] rep_ok_space [OF n]
    by (intro varstart_dims_result) (simp_all add: quiver_ok_def)
  have 2: "count_equations M N ?es = Inr (length (equations M N ?es))"
  proof -
    have "\<forall>e \<in> set ?es. rep_spaces M (fst e) \<noteq> None \<and> rep_spaces N (fst (snd e)) \<noteq> None"
      using quiver_ok_edge [OF q] rep_ok_space [OF m] rep_ok_space [OF n] by blast
    then show ?thesis
      by (simp add: count_equations_result length_equations_dims [OF m n])
  qed
  have 3: "varstart_cumulate (0 # ?ds) = Inr ?vs"
    by (rule varstart_cumulate_result)
  have 4: "list_get ?vs (length ?vs - 1) = Inr (sum_list ?ds)"
    by (simp add: list_get_def nth_append del: upt_Suc)
  have 5: "fill_coef_mat M N ?verts ?vs ?es (zero_matrix (sum_list ?ds) (length (equations M N ?es)))
      = Inr (system_matrix M N, length (equations M N ?es))"
    by (rule fill_coef_mat_result [OF q m n])
  have 6: "ncols (system_matrix M N) = length (equations M N ?es)"
    by (simp add: system_matrix_def)
  show ?thesis
    unfolding build_system_def Let_def 1 2 3 4 ebind_Inr 5 6 ..
qed

subsection \<open>An iteration writes one column\<close>

lemma set_entry_frame:
  "set_entry cm r c v = Inr cm' \<Longrightarrow>
     nrows cm' = nrows cm \<and> ncols cm' = ncols cm \<and>
     (\<forall>r' c'. c' \<noteq> c \<longrightarrow> entry cm' r' c' = entry cm r' c')"
  by (auto simp: set_entry_def split: if_splits)

lemma for_loop_preserve:
  assumes "for_loop xs body s = Inr s'" and "P s"
    and "\<And>x s s'. body x s = Inr s' \<Longrightarrow> P s \<Longrightarrow> P s'"
  shows "P s'"
  using assms(1,2)
proof (induction xs arbitrary: s)
  case Nil
  then show ?case by simp
next
  case (Cons x xs)
  from Cons.prems(1) obtain s1 where "body x s = Inr s1" "for_loop xs body s1 = Inr s'"
    by (auto simp: ebind_eq_Inr)
  then show ?case using Cons.IH [of s1] assms(3) [of x s s1] Cons.prems(2) by blast
qed

lemma write_equation_frame:
  assumes "write_equation verts varstart e X Y i j (cm, eqn) = Inr (cm', eqn')"
  shows "eqn' = eqn + 1 \<and> nrows cm' = nrows cm \<and> ncols cm' = ncols cm \<and>
     (\<forall>r c. c \<noteq> eqn \<longrightarrow> entry cm' r c = entry cm r c)"
proof -
  let ?P = "\<lambda>m. nrows m = nrows cm \<and> ncols m = ncols cm \<and>
     (\<forall>r c. c \<noteq> eqn \<longrightarrow> entry m r c = entry cm r c)"
  from assms obtain cm1 where
    l1: "for_loop [0..<nrows Y] (\<lambda>k coef_mat.
              ebind (get_entry Y k j) (\<lambda>y.
              ebind (list_index verts (fst e)) (\<lambda>s.
              ebind (list_get varstart s) (\<lambda>vs.
              set_entry coef_mat (vs + i * nrows Y + k) eqn y)))) cm = Inr cm1"
    and l2: "for_loop [0..<ncols X] (\<lambda>k coef_mat.
              ebind (get_entry X i k) (\<lambda>x.
              ebind (list_index verts (fst (snd e))) (\<lambda>t.
              ebind (list_get varstart t) (\<lambda>vt.
              set_entry coef_mat (vt + k * ncols Y + j) eqn (- x))))) cm1 = Inr cm'"
    and e: "eqn' = eqn + 1"
    by (auto simp: write_equation_def ebind_eq_Inr)
  have "?P cm1"
    by (rule for_loop_preserve [OF l1, where P = ?P])
       (auto simp: ebind_eq_Inr dest!: set_entry_frame)
  then have "?P cm'"
    by (rule for_loop_preserve [OF l2, where P = ?P])
       (auto simp: ebind_eq_Inr dest!: set_entry_frame)
  then show ?thesis using e by simp
qed

lemma P1_ok: "quiver_ok (rep_quiver P1) \<and> rep_ok (rep_quiver P1) P1"
  by (simp add: P1_def Q_ab_def quiver_ok_def rep_ok_def dim_at_def matrix_of_rows_def)

subsection \<open>The product of a vector with a column\<close>

lemma write_rows_other:
  "(\<forall>k<n. f k \<noteq> r) \<Longrightarrow> write_rows f g n col r = col r"
  by (induction n) auto

lemma sum_fun_upd:
  fixes w c :: "nat \<Rightarrow> 'a::comm_ring_1"
  assumes "r0 < n"
  shows "(\<Sum>r<n. w r * (c(r0 := v)) r) = (\<Sum>r<n. w r * c r) + w r0 * (v - c r0)"
proof -
  have fin: "finite {..<n}" and mem: "r0 \<in> {..<n}" using assms by simp_all
  have "(\<Sum>r<n. w r * (c(r0 := v)) r)
      = w r0 * v + (\<Sum>r\<in>{..<n} - {r0}. w r * (c(r0 := v)) r)"
    using sum.remove [OF fin mem, of "\<lambda>r. w r * (c(r0 := v)) r"] by simp
  also have "(\<Sum>r\<in>{..<n} - {r0}. w r * (c(r0 := v)) r) = (\<Sum>r\<in>{..<n} - {r0}. w r * c r)"
    by (rule sum.cong) simp_all
  also have "(\<Sum>r<n. w r * c r) = w r0 * c r0 + (\<Sum>r\<in>{..<n} - {r0}. w r * c r)"
    using sum.remove [OF fin mem, of "\<lambda>r. w r * c r"] by simp
  then have "(\<Sum>r\<in>{..<n} - {r0}. w r * c r) = (\<Sum>r<n. w r * c r) - w r0 * c r0"
    by simp
  finally show ?thesis by (simp add: algebra_simps)
qed

lemma dot_write_rows:
  fixes w col :: "nat \<Rightarrow> 'a::comm_ring_1"
  assumes "inj_on f {..<n}" and "\<forall>k<n. f k < m"
  shows "(\<Sum>r<m. w r * write_rows f g n col r)
       = (\<Sum>r<m. w r * col r) + (\<Sum>k<n. w (f k) * (g k - col (f k)))"
  using assms
proof (induction n)
  case 0
  then show ?case by simp
next
  case (Suc n)
  have inj: "inj_on f {..<n}"
    using Suc.prems(1) by (rule inj_on_subset) auto
  have "\<forall>k<n. f k \<noteq> f n"
    using Suc.prems(1) by (auto simp: inj_on_def)
  then have old: "write_rows f g n col (f n) = col (f n)"
    by (rule write_rows_other)
  have "(\<Sum>r<m. w r * write_rows f g (Suc n) col r)
      = (\<Sum>r<m. w r * write_rows f g n col r) + w (f n) * (g n - write_rows f g n col (f n))"
    unfolding write_rows_Suc using Suc.prems(2) by (intro sum_fun_upd) simp
  then show ?case using Suc.IH [OF inj] Suc.prems(2) old by simp
qed

lemma dot_column_sum:
  "dot_column w m c = (\<Sum>r<nrows m. w ! r * entry m r c)"
  by (simp add: dot_column_def interv_sum_list_conv_sum_set_nat atLeast0LessThan)

text \<open>The dot product of a vector with one equation column, for an edge that is not a loop.\<close>

lemma dot_equation_column:
  fixes w :: "nat \<Rightarrow> 'a::comm_ring_1"
  assumes j: "j < ncols Y"
    and rs: "\<forall>k<nrows Y. vs + i * nrows Y + k < m"
    and rt: "\<forall>k<ncols X. vt + k * ncols Y + j < m"
    and disj: "\<forall>k<ncols X. \<forall>k'<nrows Y. vt + k * ncols Y + j \<noteq> vs + i * nrows Y + k'"
  shows "(\<Sum>r<m. w r * equation_column vs vt X Y i j (\<lambda>r. 0) r)
       = (\<Sum>k<nrows Y. w (vs + i * nrows Y + k) * entry Y k j)
         - (\<Sum>k<ncols X. entry X i k * w (vt + k * ncols Y + j))"
proof -
  let ?f1 = "\<lambda>k. vs + i * nrows Y + k"
  let ?g1 = "\<lambda>k. entry Y k j"
  let ?f2 = "\<lambda>k. vt + k * ncols Y + j"
  let ?g2 = "\<lambda>k. - entry X i k"
  let ?c1 = "write_rows ?f1 ?g1 (nrows Y) (\<lambda>r. 0)"
  have inj1: "inj_on ?f1 {..<nrows Y}" by (simp add: inj_on_def)
  have inj2: "inj_on ?f2 {..<ncols X}" using j by (auto simp: inj_on_def)
  have d1: "(\<Sum>r<m. w r * ?c1 r) = (\<Sum>k<nrows Y. w (?f1 k) * ?g1 k)"
    using dot_write_rows [OF inj1 rs, of w ?g1 "\<lambda>r. 0"] by simp
  have c1: "\<forall>k<ncols X. ?c1 (?f2 k) = 0"
  proof (intro allI impI)
    fix k assume "k < ncols X"
    then have "\<forall>k'<nrows Y. ?f1 k' \<noteq> ?f2 k" using disj by (metis)
    then show "?c1 (?f2 k) = 0" by (simp add: write_rows_other)
  qed
  have "(\<Sum>r<m. w r * write_rows ?f2 ?g2 (ncols X) ?c1 r)
      = (\<Sum>r<m. w r * ?c1 r) + (\<Sum>k<ncols X. w (?f2 k) * (?g2 k - ?c1 (?f2 k)))"
    by (rule dot_write_rows [OF inj2 rt])
  also have "(\<Sum>k<ncols X. w (?f2 k) * (?g2 k - ?c1 (?f2 k)))
      = (\<Sum>k<ncols X. - (entry X i k * w (?f2 k)))"
    by (rule sum.cong) (use c1 in \<open>simp_all add: mult.commute\<close>)
  finally show ?thesis
    by (simp add: equation_column_def d1 sum_negf)
qed

lemma prefix_sum_mono: "a \<le> b \<Longrightarrow> sum_list (take a ds) \<le> sum_list (take b (ds :: nat list))"
proof -
  assume "a \<le> b"
  then have "take a ds = take a (take b ds)" by (simp add: min_def)
  then show ?thesis using sum_list_take_le [of a "take b ds"] by simp
qed

lemma var_offset_index:
  assumes "list_index (vertices (rep_quiver M)) v = Inr s"
  shows "var_offset M N v =
     sum_list (take s (map (\<lambda>u. dim_at M u * dim_at N u) (vertices (rep_quiver M))))"
  using takeWhile_index [OF assms] by (simp add: var_offset_def take_map)

lemma var_offset_block:
  assumes "v \<in> set (vertices (rep_quiver M))"
  shows "var_offset M N v + dim_at M v * dim_at N v \<le> hom_dim M N"
proof -
  let ?ds = "map (\<lambda>u. dim_at M u * dim_at N u) (vertices (rep_quiver M))"
  obtain s where s: "list_index (vertices (rep_quiver M)) v = Inr s"
    "s < length (vertices (rep_quiver M))" "vertices (rep_quiver M) ! s = v"
    using list_index_mem [OF assms] by blast
  have "var_offset M N v + dim_at M v * dim_at N v = sum_list (take (Suc s) ?ds)"
    using s by (simp add: var_offset_index [OF s(1)] sum_list_take_Suc)
  then show ?thesis using sum_list_take_le [of "Suc s" ?ds] by (simp add: hom_dim_def)
qed

lemma var_offset_disjoint:
  assumes u: "u \<in> set (vertices (rep_quiver M))" and v: "v \<in> set (vertices (rep_quiver M))"
    and ne: "u \<noteq> v"
  shows "var_offset M N u + dim_at M u * dim_at N u \<le> var_offset M N v
       \<or> var_offset M N v + dim_at M v * dim_at N v \<le> var_offset M N u"
proof -
  let ?ds = "map (\<lambda>u. dim_at M u * dim_at N u) (vertices (rep_quiver M))"
  obtain s where s: "list_index (vertices (rep_quiver M)) u = Inr s"
    "s < length (vertices (rep_quiver M))" "vertices (rep_quiver M) ! s = u"
    using list_index_mem [OF u] by blast
  obtain t where t: "list_index (vertices (rep_quiver M)) v = Inr t"
    "t < length (vertices (rep_quiver M))" "vertices (rep_quiver M) ! t = v"
    using list_index_mem [OF v] by blast
  have su: "var_offset M N u + dim_at M u * dim_at N u = sum_list (take (Suc s) ?ds)"
    using s by (simp add: var_offset_index [OF s(1)] sum_list_take_Suc)
  have sv: "var_offset M N v + dim_at M v * dim_at N v = sum_list (take (Suc t) ?ds)"
    using t by (simp add: var_offset_index [OF t(1)] sum_list_take_Suc)
  have "s \<noteq> t" using s(3) t(3) ne by auto
  then consider "Suc s \<le> t" | "Suc t \<le> s" by linarith
  then show ?thesis
  proof cases
    case 1
    then show ?thesis
      using prefix_sum_mono [of "Suc s" t ?ds] su var_offset_index [OF t(1), of N] by simp
  next
    case 2
    then show ?thesis
      using prefix_sum_mono [of "Suc t" s ?ds] sv var_offset_index [OF s(1), of N] by simp
  qed
qed

text \<open>The dot product of a vector with the column of one equation.\<close>

lemma dot_system_column:
  fixes M N :: "('a::comm_ring_1) QuiverRep"
  assumes q: "quiver_ok (rep_quiver M)"
    and m: "rep_ok (rep_quiver M) M" and n: "rep_ok (rep_quiver M) N"
    and e: "e \<in> set (edges (rep_quiver M))" and ne: "fst e \<noteq> fst (snd e)"
    and i: "i < dim_at M (fst e)" and j: "j < dim_at N (fst (snd e))"
  shows "(\<Sum>r<hom_dim M N. w ! r * equation_of M N (e, i, j) r)
       = entry (mat_mul (vertex_map M N w (fst e)) (edge_matrix N e)) i j
         - entry (mat_mul (edge_matrix M e) (vertex_map M N w (fst (snd e)))) i j"
proof -
  let ?s = "fst e" and ?t = "fst (snd e)"
  let ?X = "edge_matrix M e" and ?Y = "edge_matrix N e"
  have X: "nrows ?X = dim_at M ?s" "ncols ?X = dim_at M ?t"
    using rep_ok_map [OF m e] by simp_all
  have Y: "nrows ?Y = dim_at N ?s" "ncols ?Y = dim_at N ?t"
    using rep_ok_map [OF n e] by simp_all
  have sv: "?s \<in> set (vertices (rep_quiver M))" and tv: "?t \<in> set (vertices (rep_quiver M))"
    using quiver_ok_edge [OF q e] by simp_all
  have bs: "\<And>k. k < dim_at N ?s \<Longrightarrow> i * dim_at N ?s + k < dim_at M ?s * dim_at N ?s"
    using i by (simp add: block_index)
  have bt: "\<And>k. k < dim_at M ?t \<Longrightarrow> k * dim_at N ?t + j < dim_at M ?t * dim_at N ?t"
    using j by (simp add: block_index)
  have rs: "\<forall>k<nrows ?Y. var_offset M N ?s + i * nrows ?Y + k < hom_dim M N"
    using bs var_offset_block [OF sv, of N] by (fastforce simp: Y)
  have rt: "\<forall>k<ncols ?X. var_offset M N ?t + k * ncols ?Y + j < hom_dim M N"
    using bt var_offset_block [OF tv, of N] by (fastforce simp: X Y)
  have disj: "\<forall>k<ncols ?X. \<forall>k'<nrows ?Y.
      var_offset M N ?t + k * ncols ?Y + j \<noteq> var_offset M N ?s + i * nrows ?Y + k'"
  proof (intro allI impI)
    fix k k' assume k: "k < ncols ?X" and k': "k' < nrows ?Y"
    have 1: "k * dim_at N ?t + j < dim_at M ?t * dim_at N ?t" using bt k X by simp
    have 2: "i * dim_at N ?s + k' < dim_at M ?s * dim_at N ?s" using bs k' Y by simp
    from var_offset_disjoint [OF sv tv ne, of N] 1 2
    show "var_offset M N ?t + k * ncols ?Y + j \<noteq> var_offset M N ?s + i * nrows ?Y + k'"
      unfolding Y by linarith
  qed
  have "(\<Sum>r<hom_dim M N. w ! r * equation_of M N (e, i, j) r)
     = (\<Sum>k<nrows ?Y. w ! (var_offset M N ?s + i * nrows ?Y + k) * entry ?Y k j)
         - (\<Sum>k<ncols ?X. entry ?X i k * w ! (var_offset M N ?t + k * ncols ?Y + j))"
    unfolding equation_of_def fst_conv snd_conv
    by (rule dot_equation_column [where w = "\<lambda>r. w ! r"]) (use j Y rs rt disj in simp_all)
  then show ?thesis
    by (simp add: mat_mul_def vertex_map_def X Y interv_sum_list_conv_sum_set_nat
        atLeast0LessThan)
qed

subsection \<open>The kernel is the space of homomorphisms\<close>

lemma commutes_at_iff:
  fixes M N :: "('a::comm_ring_1) QuiverRep"
  assumes m: "rep_ok (rep_quiver M) M" and n: "rep_ok (rep_quiver M) N"
    and e: "e \<in> set (edges (rep_quiver M))"
  shows "commutes_at M N w e \<longleftrightarrow>
     (\<forall>i<dim_at M (fst e). \<forall>j<dim_at N (fst (snd e)).
        entry (mat_mul (vertex_map M N w (fst e)) (edge_matrix N e)) i j
        = entry (mat_mul (edge_matrix M e) (vertex_map M N w (fst (snd e)))) i j)"
  using rep_ok_map [OF m e] rep_ok_map [OF n e]
  by (auto simp: commutes_at_def mat_eq_def list_all_iff mat_mul_def vertex_map_def)

lemma kernel_is_hom:
  fixes M N :: "('a::comm_ring_1) QuiverRep"
  assumes q: "quiver_ok (rep_quiver M)"
    and m: "rep_ok (rep_quiver M) M" and n: "rep_ok (rep_quiver M) N"
    and l: "no_loops (rep_quiver M)"
  shows "space_contains (Kernel (system_matrix M N)) w \<longleftrightarrow> is_hom M N w"
proof -
  let ?es = "edges (rep_quiver M)"
  let ?eqs = "equations M N ?es"
  let ?D = "\<lambda>t. entry (mat_mul (vertex_map M N w (fst (fst t))) (edge_matrix N (fst t)))
                 (fst (snd t)) (snd (snd t))
         - entry (mat_mul (edge_matrix M (fst t)) (vertex_map M N w (fst (snd (fst t)))))
                 (fst (snd t)) (snd (snd t))"
  have dims: "\<And>e. e \<in> set ?es \<Longrightarrow> nrows (edge_matrix M e) = dim_at M (fst e)
      \<and> ncols (edge_matrix N e) = dim_at N (fst (snd e))"
    using rep_ok_map [OF m] rep_ok_map [OF n] by simp
  have col: "dot_column w (system_matrix M N) c = ?D (?eqs ! c)" if c: "c < length ?eqs" for c
  proof -
    obtain e i j where t: "?eqs ! c = (e, i, j)" by (cases "?eqs ! c") auto
    have "?eqs ! c \<in> set ?eqs" using c by simp
    then have e: "e \<in> set ?es" and i0: "i < nrows (edge_matrix M e)"
      and j0: "j < ncols (edge_matrix N e)"
      using t by (simp_all add: set_equations)
    have i: "i < dim_at M (fst e)" and j: "j < dim_at N (fst (snd e))"
      using dims [OF e] i0 j0 by simp_all
    have ne: "fst e \<noteq> fst (snd e)"
      using l e by (simp add: no_loops_def list_all_iff)
    have "dot_column w (system_matrix M N) c
        = (\<Sum>r<hom_dim M N. w ! r * equation_of M N (e, i, j) r)"
      using c t by (simp add: dot_column_sum system_matrix_def hom_dim_def)
    then show ?thesis
      using dot_system_column [OF q m n e ne i j, of w] t by simp
  qed
  have "(\<forall>c<length ?eqs. dot_column w (system_matrix M N) c = 0)
      \<longleftrightarrow> (\<forall>c<length ?eqs. ?D (?eqs ! c) = 0)"
    using col by simp
  also have "\<dots> \<longleftrightarrow> (\<forall>t \<in> set ?eqs. ?D t = 0)"
    by (simp add: all_set_conv_all_nth)
  also have "\<dots> \<longleftrightarrow> (\<forall>e \<in> set ?es. \<forall>i<dim_at M (fst e). \<forall>j<dim_at N (fst (snd e)).
        ?D (e, i, j) = 0)"
  proof
    assume a: "\<forall>t \<in> set ?eqs. ?D t = 0"
    show "\<forall>e \<in> set ?es. \<forall>i<dim_at M (fst e). \<forall>j<dim_at N (fst (snd e)). ?D (e, i, j) = 0"
    proof (intro ballI allI impI)
      fix e i j assume e: "e \<in> set ?es" and "i < dim_at M (fst e)" "j < dim_at N (fst (snd e))"
      then have "(e, i, j) \<in> set ?eqs" using dims [OF e] by (simp add: set_equations)
      then show "?D (e, i, j) = 0" using a by blast
    qed
  next
    assume a: "\<forall>e \<in> set ?es. \<forall>i<dim_at M (fst e). \<forall>j<dim_at N (fst (snd e)). ?D (e, i, j) = 0"
    show "\<forall>t \<in> set ?eqs. ?D t = 0"
    proof
      fix t assume t: "t \<in> set ?eqs"
      then have e: "fst t \<in> set ?es" by (simp add: set_equations)
      have "fst (snd t) < dim_at M (fst (fst t))" "snd (snd t) < dim_at N (fst (snd (fst t)))"
        using t dims [OF e] by (simp_all add: set_equations)
      then have "?D (fst t, fst (snd t), snd (snd t)) = 0" using a e by blast
      then show "?D t = 0" by simp
    qed
  qed
  also have "\<dots> \<longleftrightarrow> (\<forall>e \<in> set ?es. commutes_at M N w e)"
    using commutes_at_iff [OF m n] by simp
  finally have "(\<forall>c<length ?eqs. dot_column w (system_matrix M N) c = 0)
      \<longleftrightarrow> (\<forall>e \<in> set ?es. commutes_at M N w e)" .
  moreover have "nrows (system_matrix M N) = hom_dim M N"
    and "ncols (system_matrix M N) = length ?eqs"
    by (simp_all add: system_matrix_def hom_dim_def)
  ultimately show ?thesis
    by (auto simp: is_hom_def list_all_iff)
qed

subsection \<open>The result of the constructor\<close>

lemma rep_ok_quiver_eq: "\<not> quiver_ne Q Q' \<Longrightarrow> rep_ok Q' N \<Longrightarrow> rep_ok Q N"
  by (simp add: rep_ok_def quiver_ne_def)

lemma write_rows_at:
  "inj_on f {..<n} \<Longrightarrow> k < n \<Longrightarrow> write_rows f g n col (f k) = g k"
proof (induction n)
  case 0
  then show ?case by simp
next
  case (Suc n)
  have inj: "inj_on f {..<n}" using Suc.prems(1) by (rule inj_on_subset) auto
  show ?case
  proof (cases "k = n")
    case True
    then show ?thesis by simp
  next
    case False
    then have k: "k < n" using Suc.prems(2) by simp
    then have "f k \<noteq> f n" using Suc.prems(1) by (auto simp: inj_on_def)
    then show ?thesis using Suc.IH [OF inj k] by simp
  qed
qed

lemma QuiverHomSpace_generic_result:
  fixes M N :: "('a::comm_ring_1) QuiverRep"
  assumes "wf_rep M" and "wf_rep N"
    and "\<not> quiver_ne (rep_quiver M) (rep_quiver N)"
    and "\<not> ring_ne (rep_base_ring N) (rep_base_ring M)"
  shows "QuiverHomSpace_generic self M N =
     Inr \<lparr>hs_id = self, hs_quiver = rep_quiver M, hs_domain = M, hs_codomain = N,
          hs_space = Kernel (system_matrix M N),
          hs_identity = (rep_id M = rep_id N), hs_base = rep_base_ring N\<rparr>"
proof -
  have "rep_ok (rep_quiver M) N"
    using assms(2,3) by (auto simp: wf_rep_def intro: rep_ok_quiver_eq)
  then have "build_system M N = Inr (system_matrix M N, ncols (system_matrix M N))"
    using assms(1) by (intro build_system_result) (simp_all add: wf_rep_def)
  then show ?thesis using assms(3,4) by (simp add: QuiverHomSpace_generic_def)
qed

lemma P1_wf: "wf_rep P1"
  using P1_ok by (simp add: wf_rep_def)

lemma P1_no_loops: "no_loops (rep_quiver P1)"
  by (simp add: P1_def Q_ab_def no_loops_def)

lemma L1_wf: "wf_rep L1"
  by (simp add: wf_rep_def L1_def Q_loop_def quiver_ok_def rep_ok_def dim_at_def matrix_of_rows_def)

lemma equation_of_entries:
  fixes M N :: "('a::comm_ring_1) QuiverRep"
  assumes q: "quiver_ok (rep_quiver M)"
    and m: "rep_ok (rep_quiver M) M" and n: "rep_ok (rep_quiver M) N"
    and e: "e \<in> set (edges (rep_quiver M))" and ne: "fst e \<noteq> fst (snd e)"
    and i: "i < nrows (edge_matrix M e)" and j: "j < ncols (edge_matrix N e)"
  shows "(\<forall>k<nrows (edge_matrix N e).
            equation_of M N (e, i, j) (var_offset M N (fst e) + i * nrows (edge_matrix N e) + k)
              = entry (edge_matrix N e) k j)
       \<and> (\<forall>k<ncols (edge_matrix M e).
            equation_of M N (e, i, j) (var_offset M N (fst (snd e)) + k * ncols (edge_matrix N e) + j)
              = - entry (edge_matrix M e) i k)
       \<and> (\<forall>r. (\<forall>k<nrows (edge_matrix N e).
                  r \<noteq> var_offset M N (fst e) + i * nrows (edge_matrix N e) + k)
              \<and> (\<forall>k<ncols (edge_matrix M e).
                  r \<noteq> var_offset M N (fst (snd e)) + k * ncols (edge_matrix N e) + j)
              \<longrightarrow> equation_of M N (e, i, j) r = 0)"
proof -
  let ?s = "fst e" and ?t = "fst (snd e)"
  let ?X = "edge_matrix M e" and ?Y = "edge_matrix N e"
  let ?f1 = "\<lambda>k. var_offset M N ?s + i * nrows ?Y + k"
  let ?g1 = "\<lambda>k. entry ?Y k j"
  let ?f2 = "\<lambda>k. var_offset M N ?t + k * ncols ?Y + j"
  let ?g2 = "\<lambda>k. - entry ?X i k"
  let ?c1 = "write_rows ?f1 ?g1 (nrows ?Y) (\<lambda>r. 0)"
  have eq: "equation_of M N (e, i, j) = write_rows ?f2 ?g2 (ncols ?X) ?c1"
    by (simp add: equation_of_def equation_column_def)
  have X: "nrows ?X = dim_at M ?s" "ncols ?X = dim_at M ?t"
    using rep_ok_map [OF m e] by simp_all
  have Y: "nrows ?Y = dim_at N ?s" "ncols ?Y = dim_at N ?t"
    using rep_ok_map [OF n e] by simp_all
  have sv: "?s \<in> set (vertices (rep_quiver M))" and tv: "?t \<in> set (vertices (rep_quiver M))"
    using quiver_ok_edge [OF q e] by simp_all
  have inj1: "inj_on ?f1 {..<nrows ?Y}" by (simp add: inj_on_def)
  have inj2: "inj_on ?f2 {..<ncols ?X}" using j by (auto simp: inj_on_def)
  have disj: "?f2 k \<noteq> ?f1 k'" if k: "k < ncols ?X" and k': "k' < nrows ?Y" for k k'
  proof -
    have 1: "k * dim_at N ?t + j < dim_at M ?t * dim_at N ?t"
      using k j X Y by (simp add: block_index)
    have 2: "i * dim_at N ?s + k' < dim_at M ?s * dim_at N ?s"
      using k' i X Y by (simp add: block_index)
    from var_offset_disjoint [OF sv tv ne, of N] 1 2 show ?thesis
      unfolding Y by linarith
  qed
  have a: "\<forall>k<nrows ?Y. equation_of M N (e, i, j) (?f1 k) = ?g1 k"
  proof (intro allI impI)
    fix k assume k: "k < nrows ?Y"
    then have "\<forall>k'<ncols ?X. ?f2 k' \<noteq> ?f1 k" using disj by blast
    then have "equation_of M N (e, i, j) (?f1 k) = ?c1 (?f1 k)"
      unfolding eq by (rule write_rows_other)
    also have "\<dots> = ?g1 k" using inj1 k by (rule write_rows_at)
    finally show "equation_of M N (e, i, j) (?f1 k) = ?g1 k" .
  qed
  have b: "\<forall>k<ncols ?X. equation_of M N (e, i, j) (?f2 k) = ?g2 k"
    unfolding eq using inj2 by (auto intro: write_rows_at)
  have c: "\<forall>r. (\<forall>k<nrows ?Y. r \<noteq> ?f1 k) \<and> (\<forall>k<ncols ?X. r \<noteq> ?f2 k)
      \<longrightarrow> equation_of M N (e, i, j) r = 0"
  proof (intro allI impI)
    fix r assume r: "(\<forall>k<nrows ?Y. r \<noteq> ?f1 k) \<and> (\<forall>k<ncols ?X. r \<noteq> ?f2 k)"
    then have "\<forall>k<ncols ?X. ?f2 k \<noteq> r" by auto
    then have "equation_of M N (e, i, j) r = ?c1 r"
      unfolding eq by (rule write_rows_other)
    also have "\<dots> = 0"
    proof -
      have "\<forall>k<nrows ?Y. ?f1 k \<noteq> r" using r by auto
      then show ?thesis by (simp add: write_rows_other)
    qed
    finally show "equation_of M N (e, i, j) r = 0" .
  qed
  from a b c show ?thesis by blast
qed

subsection \<open>The vector of a dictionary of vertex matrices\<close>

lemma concat_blocks_nth:
  assumes "s < length xs" and "off < length (B (xs ! s))"
  shows "concat (map B xs) ! (sum_list (map (\<lambda>x. length (B x)) (take s xs)) + off) = B (xs ! s) ! off"
  using assms
proof (induction xs arbitrary: s)
  case Nil
  then show ?case by simp
next
  case (Cons x xs)
  show ?case
  proof (cases s)
    case 0
    then show ?thesis using Cons.prems by (simp add: nth_append)
  next
    case (Suc s')
    then show ?thesis using Cons.prems Cons.IH [of s'] by (simp add: nth_append add.assoc)
  qed
qed

lemma flatten_block_nth:
  assumes "i < n" and "k < m"
  shows "flatten_block n m A ! (i * m + k) = entry A i k"
proof -
  let ?B = "\<lambda>i. map (\<lambda>k. entry A i k) [0..<m]"
  have "sum_list (map (\<lambda>x. length (?B x)) (take i [0..<n])) = i * m"
    using assms(1) by (simp add: sum_list_triv)
  then have "concat (map ?B [0..<n]) ! (i * m + k) = ?B ([0..<n] ! i) ! k"
    using concat_blocks_nth [of i "[0..<n]" k ?B] assms by simp
  then show ?thesis using assms by (simp add: flatten_block_def)
qed

lemma length_flatten_block: "length (flatten_block n m A) = n * m"
  by (simp add: flatten_block_def length_concat comp_def sum_list_triv)

lemma length_dict_block: "length (dict_block M N d v) = dim_at M v * dim_at N v"
  by (simp add: dict_block_def length_flatten_block split: option.splits)

lemma length_dict_vector: "length (dict_vector M N d) = hom_dim M N"
  by (simp add: dict_vector_def hom_dim_def length_concat comp_def length_dict_block)

lemma dict_vector_nth:
  assumes v: "v \<in> set (vertices (rep_quiver M))" and i: "i < dim_at M v" and k: "k < dim_at N v"
  shows "dict_vector M N d ! (var_offset M N v + i * dim_at N v + k)
       = (case d v of None \<Rightarrow> 0 | Some A \<Rightarrow> entry A i k)"
proof -
  let ?verts = "vertices (rep_quiver M)"
  obtain s where s: "list_index ?verts v = Inr s" "s < length ?verts" "?verts ! s = v"
    using list_index_mem [OF v] by blast
  have off: "i * dim_at N v + k < dim_at M v * dim_at N v"
    using i k by (rule block_index)
  have "var_offset M N v = sum_list (map (\<lambda>x. length (dict_block M N d x)) (take s ?verts))"
    using var_offset_index [OF s(1), of N] by (simp add: length_dict_block take_map)
  then have "dict_vector M N d ! (var_offset M N v + i * dim_at N v + k)
      = dict_block M N d v ! (i * dim_at N v + k)"
    using concat_blocks_nth [of s ?verts "i * dim_at N v + k" "dict_block M N d"] s off
    by (simp add: dict_vector_def length_dict_block add.assoc)
  also have "\<dots> = (case d v of None \<Rightarrow> 0 | Some A \<Rightarrow> entry A i k)"
    using i k off by (simp add: dict_block_def flatten_block_nth split: option.splits)
  finally show ?thesis .
qed

subsection \<open>The zero map and the identity map\<close>

lemma sum_list_cong:
  "(\<And>x. x \<in> set xs \<Longrightarrow> f x = g x) \<Longrightarrow> sum_list (map f xs) = sum_list (map g xs)"
  by (rule arg_cong [where f = sum_list]) simp

lemma is_hom_dict_vector:
  fixes M N :: "('a::comm_ring_1) QuiverRep"
  assumes q: "quiver_ok (rep_quiver M)"
    and m: "rep_ok (rep_quiver M) M" and n: "rep_ok (rep_quiver M) N"
  shows "is_hom M N (dict_vector M N d) \<longleftrightarrow>
     (\<forall>e \<in> set (edges (rep_quiver M)).
        \<forall>i<dim_at M (fst e). \<forall>j<dim_at N (fst (snd e)).
          sum_list (map (\<lambda>k. dict_entry d (fst e) i k * entry (edge_matrix N e) k j)
                      [0..<dim_at N (fst e)])
        = sum_list (map (\<lambda>k. entry (edge_matrix M e) i k * dict_entry d (fst (snd e)) k j)
                      [0..<dim_at M (fst (snd e))]))"
proof -
  let ?w = "dict_vector M N d"
  have "commutes_at M N ?w e \<longleftrightarrow>
      (\<forall>i<dim_at M (fst e). \<forall>j<dim_at N (fst (snd e)).
          sum_list (map (\<lambda>k. dict_entry d (fst e) i k * entry (edge_matrix N e) k j)
                      [0..<dim_at N (fst e)])
        = sum_list (map (\<lambda>k. entry (edge_matrix M e) i k * dict_entry d (fst (snd e)) k j)
                      [0..<dim_at M (fst (snd e))]))"
    if e: "e \<in> set (edges (rep_quiver M))" for e
  proof -
    have sv: "fst e \<in> set (vertices (rep_quiver M))"
      and tv: "fst (snd e) \<in> set (vertices (rep_quiver M))"
      using quiver_ok_edge [OF q e] by simp_all
    have X: "ncols (edge_matrix M e) = dim_at M (fst (snd e))"
      using rep_ok_map [OF m e] by simp
    have l: "entry (mat_mul (vertex_map M N ?w (fst e)) (edge_matrix N e)) i j
        = sum_list (map (\<lambda>k. dict_entry d (fst e) i k * entry (edge_matrix N e) k j)
                      [0..<dim_at N (fst e)])"
      if "i < dim_at M (fst e)" for i j
      unfolding mat_mul_def vertex_map_def
      using that by (auto intro!: sum_list_cong simp: dict_vector_nth [OF sv] dict_entry_def)
    have r: "entry (mat_mul (edge_matrix M e) (vertex_map M N ?w (fst (snd e)))) i j
        = sum_list (map (\<lambda>k. entry (edge_matrix M e) i k * dict_entry d (fst (snd e)) k j)
                      [0..<dim_at M (fst (snd e))])"
      if "j < dim_at N (fst (snd e))" for i j
      unfolding mat_mul_def vertex_map_def
      using that by (auto intro!: sum_list_cong simp: X dict_vector_nth [OF tv] dict_entry_def)
    show ?thesis
      unfolding commutes_at_iff [OF m n e] using l r by simp
  qed
  then show ?thesis
    by (simp add: is_hom_def length_dict_vector list_all_iff)
qed

lemma is_hom_zero:
  fixes M N :: "('a::comm_ring_1) QuiverRep"
  assumes "quiver_ok (rep_quiver M)" and "rep_ok (rep_quiver M) M" and "rep_ok (rep_quiver M) N"
  shows "is_hom M N (dict_vector M N Map.empty)"
  unfolding is_hom_dict_vector [OF assms] by (simp add: dict_entry_def)

lemma dict_vector_empty: "dict_vector M N Map.empty = replicate (hom_dim M N) 0"
proof -
  have "\<forall>x \<in> set (dict_vector M N Map.empty). x = 0"
    by (auto simp: dict_vector_def dict_block_def)
  then show ?thesis
    using length_dict_vector [of M N Map.empty]
    by (metis replicate_eqI)
qed

lemma sum_list_delta_left:
  fixes y :: "nat \<Rightarrow> 'a::comm_ring_1"
  assumes "i < n"
  shows "sum_list (map (\<lambda>k. (if i = k then 1 else 0) * y k) [0..<n]) = y i"
proof -
  have "sum_list (map (\<lambda>k. (if i = k then 1 else 0) * y k) [0..<n])
      = (\<Sum>k\<in>{..<n}. if k = i then y k else 0)"
    unfolding interv_sum_list_conv_sum_set_nat
    by (rule sum.cong) (auto simp: atLeast0LessThan)
  then show ?thesis using assms by simp
qed

lemma sum_list_delta_right:
  fixes x :: "nat \<Rightarrow> 'a::comm_ring_1"
  assumes "j < n"
  shows "sum_list (map (\<lambda>k. x k * (if k = j then 1 else 0)) [0..<n]) = x j"
proof -
  have "sum_list (map (\<lambda>k. x k * (if k = j then 1 else 0)) [0..<n])
      = (\<Sum>k\<in>{..<n}. if k = j then x k else 0)"
    unfolding interv_sum_list_conv_sum_set_nat
    by (rule sum.cong) (auto simp: atLeast0LessThan)
  then show ?thesis using assms by simp
qed

lemma rep_eq_fields:
  assumes "\<not> rep_ne M N"
  shows "vertices (rep_quiver N) = vertices (rep_quiver M)"
    and "edges (rep_quiver N) = edges (rep_quiver M)"
    and "dim_at N = dim_at M" and "edge_matrix N = edge_matrix M"
  using assms by (auto simp: rep_ne_def quiver_ne_def dim_at_def edge_matrix_def fun_eq_iff)

lemma is_hom_identity:
  fixes M N :: "('a::comm_ring_1) QuiverRep"
  assumes q: "quiver_ok (rep_quiver M)" and m: "rep_ok (rep_quiver M) M"
    and eq: "\<not> rep_ne M N"
  shows "is_hom M N (dict_vector M N (identity_dict M))"
proof -
  have dN: "dim_at N = dim_at M" and eN: "edge_matrix N = edge_matrix M"
    using rep_eq_fields [OF eq] by simp_all
  have "rep_spaces N = rep_spaces M" and "rep_maps N = rep_maps M"
    using eq by (simp_all add: rep_ne_def)
  then have n: "rep_ok (rep_quiver M) N"
    using m unfolding rep_ok_def dN by simp
  show ?thesis
    unfolding is_hom_dict_vector [OF q m n]
  proof (intro ballI allI impI)
    fix e i j
    assume e: "e \<in> set (edges (rep_quiver M))"
      and i: "i < dim_at M (fst e)" and j: "j < dim_at N (fst (snd e))"
    have sv: "fst e \<in> set (vertices (rep_quiver M))"
      and tv: "fst (snd e) \<in> set (vertices (rep_quiver M))"
      using quiver_ok_edge [OF q e] by simp_all
    have ds: "dict_entry (identity_dict M) (fst e) i k = (if i = k then 1 else 0)" for k
      using sv by (simp add: dict_entry_def identity_dict_def scalar_matrix_def)
    have dt: "dict_entry (identity_dict M) (fst (snd e)) k j = (if k = j then 1 else 0)" for k
      using tv by (simp add: dict_entry_def identity_dict_def scalar_matrix_def)
    show "sum_list (map (\<lambda>k. dict_entry (identity_dict M) (fst e) i k * entry (edge_matrix N e) k j)
                      [0..<dim_at N (fst e)])
        = sum_list (map (\<lambda>k. entry (edge_matrix M e) i k
                              * dict_entry (identity_dict M) (fst (snd e)) k j)
                      [0..<dim_at M (fst (snd e))])"
      unfolding ds dt using i j
      by (simp add: dN eN sum_list_delta_left sum_list_delta_right)
  qed
qed

lemma identity_maps_loop:
  assumes "\<forall>v \<in> set xs. rep_spaces M v \<noteq> None"
  shows "for_loop xs (\<lambda>v maps.
              ebind (dict_get (rep_spaces M) v) (\<lambda>d.
              Inr (maps(v \<mapsto> scalar_matrix d (1::'a::{zero,one}))))) acc
       = Inr (\<lambda>v. if v \<in> set xs then Some (scalar_matrix (dim_at M v) 1) else acc v)"
  using assms
proof (induction xs arbitrary: acc)
  case Nil
  then show ?case by simp
next
  case (Cons x xs)
  let ?body = "\<lambda>v maps.
              ebind (dict_get (rep_spaces M) v) (\<lambda>d.
              Inr (maps(v \<mapsto> scalar_matrix d (1::'a))))"
  have e: "(\<lambda>v. if v \<in> set xs then Some (scalar_matrix (dim_at M v) (1::'a))
             else (acc(x \<mapsto> scalar_matrix (dim_at M x) 1)) v)
      = (\<lambda>v. if v \<in> set (x # xs) then Some (scalar_matrix (dim_at M v) 1) else acc v)"
    by (auto simp: fun_eq_iff)
  have "for_loop (x # xs) ?body acc = for_loop xs ?body (acc(x \<mapsto> scalar_matrix (dim_at M x) 1))"
    using Cons.prems by (simp add: dict_get_space)
  also have "\<dots> = Inr (\<lambda>v. if v \<in> set xs then Some (scalar_matrix (dim_at M v) (1::'a))
             else (acc(x \<mapsto> scalar_matrix (dim_at M x) 1)) v)"
    using Cons.prems by (intro Cons.IH) simp
  finally show ?case unfolding e .
qed

lemma dict_fits_identity:
  "dim_at N = dim_at M \<Longrightarrow> dict_fits M N (identity_dict M)"
  by (simp add: dict_fits_def identity_dict_def list_all_iff scalar_matrix_def)

lemma QuiverHomSpace_generic_Inr:
  assumes "QuiverHomSpace_generic self M N = Inr H"
  shows "\<not> quiver_ne (rep_quiver M) (rep_quiver N)"
    and "\<not> ring_ne (rep_base_ring N) (rep_base_ring M)"
    and "hs_id H = self" and "hs_quiver H = rep_quiver M" and "hs_domain H = M"
    and "hs_codomain H = N" and "hs_identity H = (rep_id M = rep_id N)"
    and "hs_base H = rep_base_ring N"
  using assms
  by (auto simp: QuiverHomSpace_generic_def ebind_eq_Inr split: if_splits)

lemma QuiverRepHom_dict:
  assumes "\<not> quiver_ne (rep_quiver M) (rep_quiver N)"
    and "\<not> ring_ne (rep_base_ring N) (rep_base_ring M)"
    and "dict_fits M N d" and "is_hom M N (dict_vector M N d)"
  shows "QuiverRepHom M N (DataDict d) =
     Inr \<lparr>hom_quiver = rep_quiver M, hom_domain = M, hom_codomain = N,
          hom_vector = dict_vector M N d\<rparr>"
  using assms by (simp add: QuiverRepHom_def)

lemma private_identity_result:
  fixes M N :: "('a::comm_ring_1) QuiverRep"
  assumes wf: "wf_rep M" and eq: "\<not> rep_ne M N"
    and H: "hs_quiver H = rep_quiver M" "hs_domain H = M" "hs_codomain H = N"
  shows "private_identity H =
     Inr \<lparr>hom_quiver = rep_quiver M, hom_domain = M, hom_codomain = N,
          hom_vector = dict_vector M N (identity_dict M)\<rparr>"
proof -
  have q: "quiver_ok (rep_quiver M)" and m: "rep_ok (rep_quiver M) M"
    using wf by (simp_all add: wf_rep_def)
  have sp: "\<forall>v \<in> set (vertices (rep_quiver M)). rep_spaces M v \<noteq> None"
    using rep_ok_space [OF m] by blast
  have maps: "for_loop (vertices (rep_quiver M)) (\<lambda>v maps.
              ebind (dict_get (rep_spaces M) v) (\<lambda>d.
              Inr (maps(v \<mapsto> scalar_matrix d (1::'a))))) Map.empty = Inr (identity_dict M)"
    unfolding identity_maps_loop [OF sp] identity_dict_def by simp
  have ne: "\<not> quiver_ne (rep_quiver M) (rep_quiver N)"
    "\<not> ring_ne (rep_base_ring N) (rep_base_ring M)"
    using eq by (auto simp: rep_ne_def ring_ne_def)
  have "QuiverRepHom M N (DataDict (identity_dict M)) =
     Inr \<lparr>hom_quiver = rep_quiver M, hom_domain = M, hom_codomain = N,
          hom_vector = dict_vector M N (identity_dict M)\<rparr>"
    using ne dict_fits_identity [OF rep_eq_fields(3) [OF eq]] is_hom_identity [OF q m eq]
    by (rule QuiverRepHom_dict)
  then show ?thesis by (simp add: private_identity_def H maps)
qed

lemma identity_vertex_maps:
  assumes "v \<in> set (vertices (rep_quiver M))" and "i < dim_at M v" and "k < dim_at N v"
  shows "entry (vertex_map M N (dict_vector M N (identity_dict M)) v) i k
       = (if i = k then 1 else 0)"
  using assms
  by (simp add: vertex_map_def dict_vector_nth identity_dict_def scalar_matrix_def)

lemma zero_vertex_maps:
  assumes "v \<in> set (vertices (rep_quiver M))" and "i < dim_at M v" and "k < dim_at N v"
  shows "entry (vertex_map M N (dict_vector M N Map.empty) v) i k = 0"
  using assms by (simp add: vertex_map_def dict_vector_nth)

lemma H_P1_constructed: "QuiverHomSpace_generic 0 P1 P1 = Inr H_P1"
proof -
  have "\<not> quiver_ne (rep_quiver P1) (rep_quiver P1)"
    and "\<not> ring_ne (rep_base_ring P1) (rep_base_ring P1)"
    by (simp_all add: quiver_ne_def ring_ne_def)
  then show ?thesis
    using QuiverHomSpace_generic_result [OF P1_wf P1_wf, of 0] by (simp add: H_P1_def)
qed

lemma system_matrix_L1: "system_matrix L1 L1 = cm_L1"
proof -
  have e: "equations L1 L1 (edges (rep_quiver L1)) = [((Suc 0, Suc 0, ''x''), 0, 0)]"
    by code_simp
  have o: "var_offset L1 L1 (Suc 0) = 0" by code_simp
  have X: "nrows (edge_matrix L1 (Suc 0, Suc 0, ''x'')) = Suc 0"
    "ncols (edge_matrix L1 (Suc 0, Suc 0, ''x'')) = Suc 0"
    "entry (edge_matrix L1 (Suc 0, Suc 0, ''x'')) 0 0 = 1"
    by (simp_all add: edge_matrix_def L1_def matrix_of_rows_def)
  have col: "equation_of L1 L1 ((Suc 0, Suc 0, ''x''), 0, 0) = (\<lambda>r. if r = 0 then - 1 else 0)"
    unfolding equation_of_def equation_column_def fst_conv snd_conv o X
    by (auto simp: fun_eq_iff X)
  have n: "sum_list (map (\<lambda>v. dim_at L1 v * dim_at L1 v) (vertices (rep_quiver L1))) = 1"
    by code_simp
  show ?thesis
    unfolding system_matrix_def e n cm_L1_def
    by (auto simp: fun_eq_iff col)
qed

lemma H_L1_constructed: "QuiverHomSpace_generic 0 L1 L1 = Inr H_L1"
proof -
  have "\<not> quiver_ne (rep_quiver L1) (rep_quiver L1)"
    and "\<not> ring_ne (rep_base_ring L1) (rep_base_ring L1)"
    by (simp_all add: quiver_ne_def ring_ne_def)
  moreover have "rep_quiver L1 = Q_loop" and "rep_base_ring L1 = ZZ"
    by (simp_all add: L1_def)
  ultimately show ?thesis
    using QuiverHomSpace_generic_result [OF L1_wf L1_wf, of 0]
    by (simp add: H_L1_def system_matrix_L1)
qed

lemma P1_twin_wf: "wf_rep P1_twin"
  by (simp add: wf_rep_def P1_twin_def P1_def Q_ab_def quiver_ok_def rep_ok_def dim_at_def
      matrix_of_rows_def)

subsection \<open>The factory on the examples\<close>

lemma first_call: "\<exists>fac'. QuiverHomSpace rep_store empty_factory P1 P1 = Inr (H_P1, fac')"
proof -
  have "create_key P1 P1 = Inr (0, 0)"
    by (simp add: create_key_def factory_data_def P1_def)
  moreover have "create_object rep_store 0 (0, 0) = Inr H_P1"
    using H_P1_constructed by (simp add: create_object_def rep_store_def)
  ultimately show ?thesis
    by (simp add: QuiverHomSpace_def empty_factory_def)
qed

lemma QuiverHomSpace_generic_errors:
  fixes M N :: "('a::comm_ring_1) QuiverRep"
  assumes "wf_rep M" and "wf_rep N"
  shows "QuiverHomSpace_generic self M N =
     (if quiver_ne (rep_quiver M) (rep_quiver N)
      then Inl (ValueError ''Representations are not over the same quiver.'')
      else if ring_ne (rep_base_ring N) (rep_base_ring M)
      then Inl (ValueError ''Representations are not over the same base ring.'')
      else Inr \<lparr>hs_id = self, hs_quiver = rep_quiver M, hs_domain = M, hs_codomain = N,
          hs_space = Kernel (system_matrix M N),
          hs_identity = (rep_id M = rep_id N), hs_base = rep_base_ring N\<rparr>)"
  using QuiverHomSpace_generic_result [OF assms, of self]
  by (simp add: QuiverHomSpace_generic_def)

subsection \<open>Generators and coordinates\<close>

lemma map_result_all:
  "(\<And>x. x \<in> set xs \<Longrightarrow> f x = Inr (g x)) \<Longrightarrow> map_result f xs = Inr (map g xs)"
  by (induction xs) simp_all

lemma sum_list_delta_unit:
  fixes y :: "nat \<Rightarrow> 'a::comm_ring_1"
  assumes "i < n"
  shows "sum_list (map (\<lambda>k. (if k = i then 1 else 0) * y k) [0..<n]) = y i"
proof -
  have "sum_list (map (\<lambda>k. (if k = i then 1 else 0) * y k) [0..<n])
      = (\<Sum>k\<in>{..<n}. if k = i then y k else 0)"
    unfolding interv_sum_list_conv_sum_set_nat
    by (rule sum.cong) (auto simp: atLeast0LessThan)
  then show ?thesis using assms by simp
qed

lemma lincomb_unit_vector:
  fixes B :: "('a::comm_ring_1) list list"
  assumes "i < length B" and "length (B ! i) = n"
  shows "lincomb n (unit_vector (length B) i) B = B ! i"
proof (rule nth_equalityI)
  show "length (lincomb n (unit_vector (length B) i) B) = length (B ! i)"
    using assms(2) by (simp add: lincomb_def)
next
  fix r assume "r < length (lincomb n (unit_vector (length B) i) B)"
  then have r: "r < n" by (simp add: lincomb_def)
  have "sum_list (map (\<lambda>k. unit_vector (length B) i ! k * B ! k ! r) [0..<length B])
      = sum_list (map (\<lambda>k. (if k = i then 1 else 0) * B ! k ! r) [0..<length B])"
    by (rule sum_list_cong) (simp add: unit_vector_def)
  also have "\<dots> = B ! i ! r" using assms(1) by (rule sum_list_delta_unit)
  finally show "lincomb n (unit_vector (length B) i) B ! r = B ! i ! r"
    using r by (simp add: lincomb_def)
qed

lemma lincomb_unique:
  fixes B :: "('a::comm_ring_1) list list"
  assumes ind: "independent n B"
    and c: "length c = length B" and c': "length c' = length B"
    and eq: "lincomb n c B = lincomb n c' B"
  shows "c = c'"
proof -
  let ?d = "map (\<lambda>i. c ! i - c' ! i) [0..<length B]"
  have "lincomb n ?d B = replicate n 0"
  proof (rule nth_equalityI)
    show "length (lincomb n ?d B) = length (replicate n (0::'a))" by (simp add: lincomb_def)
  next
    fix r assume "r < length (lincomb n ?d B)"
    then have r: "r < n" by (simp add: lincomb_def)
    have "sum_list (map (\<lambda>i. ?d ! i * B ! i ! r) [0..<length B])
        = sum_list (map (\<lambda>i. c ! i * B ! i ! r - c' ! i * B ! i ! r) [0..<length B])"
      by (rule sum_list_cong) (simp add: left_diff_distrib)
    also have "\<dots> = sum_list (map (\<lambda>i. c ! i * B ! i ! r) [0..<length B])
        - sum_list (map (\<lambda>i. c' ! i * B ! i ! r) [0..<length B])"
      by (rule sum_list_subtractf)
    also have "\<dots> = lincomb n c B ! r - lincomb n c' B ! r"
      using r by (simp add: lincomb_def)
    also have "\<dots> = 0" using eq by simp
    finally show "lincomb n ?d B ! r = replicate n 0 ! r"
      using r by (simp add: lincomb_def)
  qed
  then have "?d = replicate (length B) 0"
    using ind by (simp add: independent_def)
  then have "\<forall>i<length B. ?d ! i = 0" by simp
  then have "\<forall>i<length B. c ! i = c' ! i" by simp
  then show ?thesis using c c' by (simp add: nth_equalityI)
qed

lemma upt_5: "[0..<5] = [0, 1, 2, 3, 4]"
  by code_simp

lemma lib_P1_ok: "linear_algebra_ok lib_P1 (hs_space H_P1)"
proof -
  have n: "ambient_dim (hs_space H_P1) = 5"
    unfolding H_P1_def by code_simp
  have ind: "independent 5 [[1, 1, 0, 0, 1 :: int]]"
    unfolding independent_def
  proof (intro allI impI)
    fix c :: "int list"
    assume a: "length c = length [[1, 1, 0, 0, 1 :: int]] \<and> lincomb 5 c [[1, 1, 0, 0, 1]] = replicate 5 0"
    then obtain x where c: "c = [x]" by (cases c) auto
    have "lincomb 5 [x] [[1, 1, 0, 0, 1]] ! 0 = x"
      by (simp add: lincomb_def upt_5)
    then have "x = 0" using a c by simp
    then show "c = replicate (length [[1, 1, 0, 0, 1 :: int]]) 0" using c by simp
  qed
  have sound: "\<forall>v c. space_coordinates lib_P1 (hs_space H_P1) v = Inr c \<longrightarrow>
            length c = length (space_gens lib_P1 (hs_space H_P1))
            \<and> lincomb 5 c (space_gens lib_P1 (hs_space H_P1)) = v"
  proof (intro allI impI)
    fix v c assume "space_coordinates lib_P1 (hs_space H_P1) v = Inr c"
    then have v: "v = map (\<lambda>x. v ! 0 * x) [1, 1, 0, 0, 1]" and c: "c = [v ! 0]"
      by (auto simp: lib_P1_def split: if_splits)
    have "lincomb 5 [v ! 0] [[1, 1, 0, 0, 1]] = map (\<lambda>x. v ! 0 * x) [1, 1, 0, 0, 1]"
      by (simp add: lincomb_def upt_5)
    then show "length c = length (space_gens lib_P1 (hs_space H_P1))
            \<and> lincomb 5 c (space_gens lib_P1 (hs_space H_P1)) = v"
      using v c by (simp add: lib_P1_def)
  qed
  show ?thesis
    unfolding linear_algebra_ok_def n
    using ind sound by (simp add: lib_P1_def)
qed

lemma S2_wf: "wf_rep S2"
  by (simp add: wf_rep_def S2_def Q_ab_def quiver_ok_def rep_ok_def dim_at_def matrix_of_rows_def)

subsection \<open>Quivers without loops\<close>

text \<open>
  At an edge whose source and target are different vertices the two inner loops of an
  iteration assign to different rows, so that nothing is assigned twice and the column
  holds the coefficients of \<open>A * Y = X * B\<close>. For well-formed representations \<open>M\<close> and
  \<open>N\<close> over the same quiver and the same base ring, when no edge of the quiver is a loop, the
  space of the hom space is the kernel of \<open>system_matrix M N\<close>, the columns are as the
  comment of \<^verbatim>\<open>__init__\<close> describes them, and a vector lies in the space if and only if
  its vertex matrices commute with the maps of every edge.
\<close>

theorem hom_space_is_kernel:
  fixes M N :: "('a::comm_ring_1) QuiverRep"
  assumes "wf_rep M" and "wf_rep N"
    and "\<not> quiver_ne (rep_quiver M) (rep_quiver N)"
    and "\<not> ring_ne (rep_base_ring N) (rep_base_ring M)"
    and "no_loops (rep_quiver M)"
  shows "\<exists>H. QuiverHomSpace_generic self M N = Inr H
     \<and> hs_space H = Kernel (system_matrix M N)
     \<and> (\<forall>e i j. (e, i, j) \<in> set (equations M N (edges (rep_quiver M))) \<longrightarrow>
          (\<forall>k<nrows (edge_matrix N e).
             equation_of M N (e, i, j) (var_offset M N (fst e) + i * nrows (edge_matrix N e) + k)
               = entry (edge_matrix N e) k j)
        \<and> (\<forall>k<ncols (edge_matrix M e).
             equation_of M N (e, i, j)
                 (var_offset M N (fst (snd e)) + k * ncols (edge_matrix N e) + j)
               = - entry (edge_matrix M e) i k)
        \<and> (\<forall>r. (\<forall>k<nrows (edge_matrix N e).
                   r \<noteq> var_offset M N (fst e) + i * nrows (edge_matrix N e) + k)
               \<and> (\<forall>k<ncols (edge_matrix M e).
                   r \<noteq> var_offset M N (fst (snd e)) + k * ncols (edge_matrix N e) + j)
               \<longrightarrow> equation_of M N (e, i, j) r = 0))
     \<and> (\<forall>w. space_contains (hs_space H) w \<longleftrightarrow> is_hom M N w)"
proof -
  have q: "quiver_ok (rep_quiver M)" and m: "rep_ok (rep_quiver M) M"
    using assms(1) by (simp_all add: wf_rep_def)
  have n: "rep_ok (rep_quiver M) N"
    using assms(2,3) by (auto simp: wf_rep_def intro: rep_ok_quiver_eq)
  let ?H = "\<lparr>hs_id = self, hs_quiver = rep_quiver M, hs_domain = M, hs_codomain = N,
          hs_space = Kernel (system_matrix M N),
          hs_identity = (rep_id M = rep_id N), hs_base = rep_base_ring N\<rparr>"
  have 1: "QuiverHomSpace_generic self M N = Inr ?H"
    using assms(1-4) by (rule QuiverHomSpace_generic_result)
  have 2: "\<forall>w. space_contains (hs_space ?H) w \<longleftrightarrow> is_hom M N w"
    using kernel_is_hom [OF q m n assms(5)] by simp
  have 3: "\<forall>e i j. (e, i, j) \<in> set (equations M N (edges (rep_quiver M))) \<longrightarrow>
          (\<forall>k<nrows (edge_matrix N e).
             equation_of M N (e, i, j) (var_offset M N (fst e) + i * nrows (edge_matrix N e) + k)
               = entry (edge_matrix N e) k j)
        \<and> (\<forall>k<ncols (edge_matrix M e).
             equation_of M N (e, i, j)
                 (var_offset M N (fst (snd e)) + k * ncols (edge_matrix N e) + j)
               = - entry (edge_matrix M e) i k)
        \<and> (\<forall>r. (\<forall>k<nrows (edge_matrix N e).
                   r \<noteq> var_offset M N (fst e) + i * nrows (edge_matrix N e) + k)
               \<and> (\<forall>k<ncols (edge_matrix M e).
                   r \<noteq> var_offset M N (fst (snd e)) + k * ncols (edge_matrix N e) + j)
               \<longrightarrow> equation_of M N (e, i, j) r = 0)"
  proof (intro allI impI)
    fix e i j assume t: "(e, i, j) \<in> set (equations M N (edges (rep_quiver M)))"
    then have e: "e \<in> set (edges (rep_quiver M))" and i: "i < nrows (edge_matrix M e)"
      and j: "j < ncols (edge_matrix N e)"
      by (simp_all add: set_equations)
    have ne: "fst e \<noteq> fst (snd e)"
      using assms(5) e by (simp add: no_loops_def list_all_iff)
    show "(\<forall>k<nrows (edge_matrix N e).
             equation_of M N (e, i, j) (var_offset M N (fst e) + i * nrows (edge_matrix N e) + k)
               = entry (edge_matrix N e) k j)
        \<and> (\<forall>k<ncols (edge_matrix M e).
             equation_of M N (e, i, j)
                 (var_offset M N (fst (snd e)) + k * ncols (edge_matrix N e) + j)
               = - entry (edge_matrix M e) i k)
        \<and> (\<forall>r. (\<forall>k<nrows (edge_matrix N e).
                   r \<noteq> var_offset M N (fst e) + i * nrows (edge_matrix N e) + k)
               \<and> (\<forall>k<ncols (edge_matrix M e).
                   r \<noteq> var_offset M N (fst (snd e)) + k * ncols (edge_matrix N e) + j)
               \<longrightarrow> equation_of M N (e, i, j) r = 0)"
      by (rule equation_of_entries [OF q m n e ne i j])
  qed
  show ?thesis
    apply (rule exI [of _ ?H])
    using 1 2 3 by simp
qed

theorem hom_space_is_kernel_P1:
  "wf_rep P1 \<and> \<not> quiver_ne (rep_quiver P1) (rep_quiver P1)
   \<and> \<not> ring_ne (rep_base_ring P1) (rep_base_ring P1) \<and> no_loops (rep_quiver P1)
   \<and> QuiverHomSpace_generic 0 P1 P1 = Inr H_P1
   \<and> space_contains (hs_space H_P1) [1, 1, 0, 0, 1] \<and> is_hom P1 P1 [1, 1, 0, 0, 1]
   \<and> \<not> space_contains (hs_space H_P1) [1, 0, 0, 0, 1] \<and> \<not> is_hom P1 P1 [1, 0, 0, 0, 1]"
proof -
  have a: "\<not> quiver_ne (rep_quiver P1) (rep_quiver P1)"
    and b: "\<not> ring_ne (rep_base_ring P1) (rep_base_ring P1)"
    by (simp_all add: quiver_ne_def ring_ne_def)
  have h: "is_hom P1 P1 [1, 1, 0, 0, 1]" by code_simp
  have nh: "\<not> is_hom P1 P1 [1, 0, 0, 0, 1]" by code_simp
  from hom_space_is_kernel [OF P1_wf P1_wf a b P1_no_loops, of 0]
  obtain H where "QuiverHomSpace_generic 0 P1 P1 = Inr H"
    and "\<forall>w. space_contains (hs_space H) w \<longleftrightarrow> is_hom P1 P1 w"
    by blast
  then have "\<forall>w. space_contains (hs_space H_P1) w \<longleftrightarrow> is_hom P1 P1 w"
    using H_P1_constructed by simp
  then show ?thesis using P1_wf P1_no_loops a b h nh H_P1_constructed by blast
qed

text \<open>
  Over such a quiver the identity of a well-formed representation lies in the hom space.
\<close>

theorem identity_in_hom_space:
  fixes M :: "('a::comm_ring_1) QuiverRep"
  assumes "wf_rep M" and "no_loops (rep_quiver M)"
  shows "\<exists>H f. QuiverHomSpace_generic self M M = Inr H \<and> identity H = Inr f
     \<and> (\<forall>v \<in> set (vertices (quiver H)). \<forall>i<dim_at M v. \<forall>k<dim_at M v.
           entry (vertex_map M M (hom_vector f) v) i k = (if i = k then 1 else 0))
     \<and> space_contains (hs_space H) (hom_vector f)
     \<and> contains H (HomObj f) = Inr True"
proof -
  let ?H = "\<lparr>hs_id = self, hs_quiver = rep_quiver M, hs_domain = M, hs_codomain = M,
          hs_space = Kernel (system_matrix M M),
          hs_identity = (rep_id M = rep_id M), hs_base = rep_base_ring M\<rparr>"
  let ?f = "\<lparr>hom_quiver = rep_quiver M, hom_domain = M, hom_codomain = M,
          hom_vector = dict_vector M M (identity_dict M)\<rparr>"
  have q: "quiver_ok (rep_quiver M)" and m: "rep_ok (rep_quiver M) M"
    using assms(1) by (simp_all add: wf_rep_def)
  have same: "\<not> quiver_ne (rep_quiver M) (rep_quiver M)"
    "\<not> ring_ne (rep_base_ring M) (rep_base_ring M)" "\<not> rep_ne M M"
    by (simp_all add: quiver_ne_def ring_ne_def rep_ne_def)
  have 1: "QuiverHomSpace_generic self M M = Inr ?H"
    using assms(1) assms(1) same(1,2) by (rule QuiverHomSpace_generic_result)
  have 2: "identity ?H = Inr ?f"
    using private_identity_result [OF assms(1) same(3), of ?H] by (simp add: identity_def)
  have 3: "space_contains (hs_space ?H) (hom_vector ?f)"
    using kernel_is_hom [OF q m m assms(2)] is_hom_identity [OF q m same(3)] by simp
  have 4: "contains ?H (HomObj ?f) = Inr True"
    using 3 same by simp
  have 5: "\<forall>v \<in> set (vertices (quiver ?H)). \<forall>i<dim_at M v. \<forall>k<dim_at M v.
           entry (vertex_map M M (hom_vector ?f) v) i k = (if i = k then 1 else 0)"
    by (simp add: quiver_def identity_vertex_maps)
  show ?thesis
    apply (rule exI [of _ ?H])
    apply (rule exI [of _ ?f])
    using 1 2 3 4 5 by blast
qed

theorem identity_in_hom_space_P1:
  "wf_rep P1 \<and> no_loops (rep_quiver P1)
   \<and> (\<exists>H f. QuiverHomSpace_generic 0 P1 P1 = Inr H \<and> identity H = Inr f
         \<and> contains H (HomObj f) = Inr True)"
  using identity_in_hom_space [OF P1_wf P1_no_loops, of 0] P1_wf P1_no_loops by blast

section \<open>The claims\<close>

text \<open>
  Claim C1 fails on the code at an edge from a vertex to itself. The comment of
  \<^verbatim>\<open>__init__\<close> (lines 189-193 and 226-235) says that the loops "write the coefficients of
  the equation" \<open>Sum_k A_ik * Y_kj - Sum_k X_ik * B_kj = 0\<close> into the coefficient matrix and
  that the solution space "is the Hom Space we're looking for". At a loop edge the matrices
  \<open>A\<close> and \<open>B\<close> are the same matrix of variables, one variable has a coefficient in
  both sums, and the second inner loop assigns \<open>- X[i, k]\<close> over the \<open>Y[k, j]\<close> that the
  first assigned, where the equation has the sum of the two. For \<open>L1\<close>, one vertex of
  dimension 1 with a loop whose map is \<open>[1]\<close>, \<open>coef_mat[0, 0]\<close> is set to
  \<open>Y[0, 0] = 1\<close> and then to \<open>- X[0, 0] = - 1\<close>, where the equation has the coefficient
  \<open>1 - 1 = 0\<close>: the constructor returns the kernel of the matrix \<open>[- 1]\<close>, and the
  vector \<open>[1]\<close>, which commutes with the edge, is not in it.
\<close>

theorem loop_edge_counterexample:
  "wf_rep L1 \<and> QuiverHomSpace_generic 0 L1 L1 = Inr H_L1 \<and> hs_space H_L1 = Kernel cm_L1
   \<and> nrows cm_L1 = 1 \<and> ncols cm_L1 = 1 \<and> entry cm_L1 0 0 = - 1
   \<and> entry (edge_matrix L1 (1, 1, ''x'')) 0 0 = 1
   \<and> is_hom L1 L1 [1] \<and> \<not> space_contains (hs_space H_L1) [1]"
proof -
  have s: "hs_space H_L1 = Kernel cm_L1" by (simp add: H_L1_def)
  have c: "nrows cm_L1 = 1" "ncols cm_L1 = 1" "entry cm_L1 0 0 = - 1"
    by (simp_all add: cm_L1_def)
  have x: "entry (edge_matrix L1 (1, 1, ''x'')) 0 0 = 1"
    by (simp add: edge_matrix_def L1_def matrix_of_rows_def)
  have h: "is_hom L1 L1 [1]" by code_simp
  have k: "\<not> space_contains (hs_space H_L1) [1]"
    unfolding H_L1_def by code_simp
  show ?thesis using L1_wf H_L1_constructed s c x h k by simp
qed

text \<open>
  Claim C2, amended. For well-formed representations, the constructor raises a
  \<^verbatim>\<open>ValueError\<close> if and only if the quivers or the base rings differ (compared with
  \<^verbatim>\<open>!=\<close>); when neither differs it returns a hom space; and it raises nothing but the
  two \<^verbatim>\<open>ValueError\<close>s of its checks. The same holds of a call of the factory
  \<^emph>\<open>for representations that the factory of representations made\<close>: each carries its
  key in \<^verbatim>\<open>_factory_data\<close>, and \<^verbatim>\<open>get_object\<close> returns it for that key. There the
  quivers and the base rings differ when they are not the same objects (\<^verbatim>\<open>create_key\<close>
  compares them with \<^verbatim>\<open>is not\<close>), an identity naming one object.
\<close>

theorem construction_errors:
  fixes M N :: "('a::comm_ring_1) QuiverRep"
  assumes "wf_rep M" and "wf_rep N"
  shows "((\<exists>msg. QuiverHomSpace_generic self M N = Inl (ValueError msg)) \<longleftrightarrow>
           quiver_ne (rep_quiver M) (rep_quiver N) \<or> ring_ne (rep_base_ring N) (rep_base_ring M))
     \<and> (\<not> quiver_ne (rep_quiver M) (rep_quiver N) \<and> \<not> ring_ne (rep_base_ring N) (rep_base_ring M)
          \<longrightarrow> (\<exists>H. QuiverHomSpace_generic self M N = Inr H))
     \<and> (\<forall>err. QuiverHomSpace_generic self M N = Inl err \<longrightarrow>
           err = ValueError ''Representations are not over the same quiver.''
           \<or> err = ValueError ''Representations are not over the same base ring.'')
     \<and> (rep_factory_data M = Some k1 \<and> rep_factory_data N = Some k2
          \<and> get_object k1 = M \<and> get_object k2 = N
          \<and> (quiver_id (rep_quiver M) = quiver_id (rep_quiver N)
                \<longrightarrow> rep_quiver M = rep_quiver N)
          \<and> (ring_id (rep_base_ring M) = ring_id (rep_base_ring N)
                \<longrightarrow> rep_base_ring M = rep_base_ring N)
        \<longrightarrow>
          ((\<exists>msg. QuiverHomSpace get_object fac M N = Inl (ValueError msg)) \<longleftrightarrow>
             quiver_id (rep_quiver M) \<noteq> quiver_id (rep_quiver N)
             \<or> ring_id (rep_base_ring M) \<noteq> ring_id (rep_base_ring N))
          \<and> (quiver_id (rep_quiver M) = quiver_id (rep_quiver N)
               \<and> ring_id (rep_base_ring M) = ring_id (rep_base_ring N)
             \<longrightarrow> (\<exists>H fac'. QuiverHomSpace get_object fac M N = Inr (H, fac')))
          \<and> (\<forall>err. QuiverHomSpace get_object fac M N = Inl err \<longrightarrow>
                err = ValueError ''The quivers of the domain and codomain must be identical.''
                \<or> err = ValueError
                     ''The base rings of the domain and codomain must be identical.''))"
proof -
  note g = QuiverHomSpace_generic_errors [OF assms, of self]
  have 1: "(\<exists>msg. QuiverHomSpace_generic self M N = Inl (ValueError msg)) \<longleftrightarrow>
           quiver_ne (rep_quiver M) (rep_quiver N) \<or> ring_ne (rep_base_ring N) (rep_base_ring M)"
    unfolding g by simp
  have 2: "\<not> quiver_ne (rep_quiver M) (rep_quiver N) \<and> \<not> ring_ne (rep_base_ring N) (rep_base_ring M)
          \<longrightarrow> (\<exists>H. QuiverHomSpace_generic self M N = Inr H)"
    unfolding g by simp
  have 3: "\<forall>err. QuiverHomSpace_generic self M N = Inl err \<longrightarrow>
           err = ValueError ''Representations are not over the same quiver.''
           \<or> err = ValueError ''Representations are not over the same base ring.''"
    unfolding g by (simp split: if_splits)
  have 4: "rep_factory_data M = Some k1 \<and> rep_factory_data N = Some k2
          \<and> get_object k1 = M \<and> get_object k2 = N
          \<and> (quiver_id (rep_quiver M) = quiver_id (rep_quiver N)
                \<longrightarrow> rep_quiver M = rep_quiver N)
          \<and> (ring_id (rep_base_ring M) = ring_id (rep_base_ring N)
                \<longrightarrow> rep_base_ring M = rep_base_ring N)
        \<longrightarrow>
          ((\<exists>msg. QuiverHomSpace get_object fac M N = Inl (ValueError msg)) \<longleftrightarrow>
             quiver_id (rep_quiver M) \<noteq> quiver_id (rep_quiver N)
             \<or> ring_id (rep_base_ring M) \<noteq> ring_id (rep_base_ring N))
          \<and> (quiver_id (rep_quiver M) = quiver_id (rep_quiver N)
               \<and> ring_id (rep_base_ring M) = ring_id (rep_base_ring N)
             \<longrightarrow> (\<exists>H fac'. QuiverHomSpace get_object fac M N = Inr (H, fac')))
          \<and> (\<forall>err. QuiverHomSpace get_object fac M N = Inl err \<longrightarrow>
                err = ValueError ''The quivers of the domain and codomain must be identical.''
                \<or> err = ValueError
                     ''The base rings of the domain and codomain must be identical.'')"
  proof (intro impI, elim conjE)
    assume f: "rep_factory_data M = Some k1" "rep_factory_data N = Some k2"
      and o: "get_object k1 = M" "get_object k2 = N"
      and cq: "quiver_id (rep_quiver M) = quiver_id (rep_quiver N)
                \<longrightarrow> rep_quiver M = rep_quiver N"
      and cr: "ring_id (rep_base_ring M) = ring_id (rep_base_ring N)
                \<longrightarrow> rep_base_ring M = rep_base_ring N"
    show "((\<exists>msg. QuiverHomSpace get_object fac M N = Inl (ValueError msg)) \<longleftrightarrow>
             quiver_id (rep_quiver M) \<noteq> quiver_id (rep_quiver N)
             \<or> ring_id (rep_base_ring M) \<noteq> ring_id (rep_base_ring N))
          \<and> (quiver_id (rep_quiver M) = quiver_id (rep_quiver N)
               \<and> ring_id (rep_base_ring M) = ring_id (rep_base_ring N)
             \<longrightarrow> (\<exists>H fac'. QuiverHomSpace get_object fac M N = Inr (H, fac')))
          \<and> (\<forall>err. QuiverHomSpace get_object fac M N = Inl err \<longrightarrow>
                err = ValueError ''The quivers of the domain and codomain must be identical.''
                \<or> err = ValueError
                     ''The base rings of the domain and codomain must be identical.'')"
  proof (cases "quiver_id (rep_quiver M) = quiver_id (rep_quiver N)
               \<and> ring_id (rep_base_ring M) = ring_id (rep_base_ring N)")
    case True
    then have same: "\<not> quiver_ne (rep_quiver M) (rep_quiver N)"
      "\<not> ring_ne (rep_base_ring N) (rep_base_ring M)"
      using cq cr by (simp_all add: quiver_ne_def ring_ne_def)
    have key: "create_key M N = Inr (k1, k2)"
      using True f by (simp add: create_key_def factory_data_def)
    have obj: "\<exists>H. create_object get_object (next_id fac) (k1, k2) = Inr H"
      using QuiverHomSpace_generic_result [OF assms same] o by (simp add: create_object_def)
    have "\<exists>H fac'. QuiverHomSpace get_object fac M N = Inr (H, fac')"
      using key obj by (auto simp: QuiverHomSpace_def split: option.splits)
    then show ?thesis using True by auto
  next
    case False
    then have "create_key M N =
        Inl (ValueError ''The quivers of the domain and codomain must be identical.'')
      \<or> create_key M N =
        Inl (ValueError ''The base rings of the domain and codomain must be identical.'')"
      by (auto simp: create_key_def)
    then show ?thesis using False by (auto simp: QuiverHomSpace_def)
  qed
  qed
  show ?thesis by (intro conjI 1 2 3 4)
qed

theorem construction_errors_witness:
  "wf_rep S2 \<and> wf_rep P1 \<and> wf_rep L1
   \<and> rep_factory_data S2 = Some 1 \<and> rep_factory_data P1 = Some 0 \<and> rep_factory_data L1 = Some 2
   \<and> rep_store 1 = S2 \<and> rep_store 0 = P1 \<and> rep_store 2 = L1
   \<and> rep_quiver S2 = rep_quiver P1 \<and> rep_base_ring S2 = rep_base_ring P1
   \<and> rep_base_ring P1 = rep_base_ring L1
   \<and> (\<exists>H. QuiverHomSpace_generic 0 S2 P1 = Inr H)
   \<and> (\<exists>H fac'. QuiverHomSpace rep_store empty_factory S2 P1 = Inr (H, fac'))
   \<and> quiver_ne (rep_quiver P1) (rep_quiver L1)
   \<and> quiver_id (rep_quiver P1) \<noteq> quiver_id (rep_quiver L1)
   \<and> (\<exists>msg. QuiverHomSpace_generic 0 P1 L1 = Inl (ValueError msg))
   \<and> (\<exists>msg. QuiverHomSpace rep_store empty_factory P1 L1 = Inl (ValueError msg))"
proof -
  have f: "rep_factory_data S2 = Some 1" "rep_factory_data P1 = Some 0"
    "rep_factory_data L1 = Some 2"
    by (simp_all add: S2_def P1_def L1_def)
  have o: "rep_store 1 = S2" "rep_store 0 = P1" "rep_store 2 = L1"
    by (simp_all add: rep_store_def)
  have same: "rep_quiver S2 = rep_quiver P1" "rep_base_ring S2 = rep_base_ring P1"
    "rep_base_ring P1 = rep_base_ring L1"
    by (simp_all add: S2_def P1_def L1_def)
  have ne: "quiver_ne (rep_quiver P1) (rep_quiver L1)"
    "quiver_id (rep_quiver P1) \<noteq> quiver_id (rep_quiver L1)"
    by (simp_all add: quiver_ne_def P1_def L1_def Q_ab_def Q_loop_def)
  have eq: "\<not> quiver_ne (rep_quiver S2) (rep_quiver P1)"
    "\<not> ring_ne (rep_base_ring P1) (rep_base_ring S2)"
    by (simp_all add: quiver_ne_def ring_ne_def same)
  note a = construction_errors [OF S2_wf P1_wf, of 0 1 0 rep_store empty_factory]
  note b = construction_errors [OF P1_wf L1_wf, of 0 0 2 rep_store empty_factory]
  have 1: "\<exists>H. QuiverHomSpace_generic 0 S2 P1 = Inr H"
    using a eq by blast
  have 2: "\<exists>H fac'. QuiverHomSpace rep_store empty_factory S2 P1 = Inr (H, fac')"
    using a f o same by simp
  have 3: "\<exists>msg. QuiverHomSpace_generic 0 P1 L1 = Inl (ValueError msg)"
    using b ne by blast
  have 4: "\<exists>msg. QuiverHomSpace rep_store empty_factory P1 L1 = Inl (ValueError msg)"
    using b f o ne same by simp
  show ?thesis
    using S2_wf P1_wf L1_wf f o same ne 1 2 3 4 by simp
qed

text \<open>
  Claim C2 as stated, for every call of the factory, fails for a representation that the
  factory of representations did not make. \<open>P1_twin\<close> has the quiver and the base ring of
  \<open>P1\<close>, the same objects, and no key: both checks of \<^verbatim>\<open>create_key\<close> pass, and
  line 78 reads \<^verbatim>\<open>codomain._factory_data[2]\<close> and raises an error that is not a
  \<^verbatim>\<open>ValueError\<close>, where the constructor, called with the two representations, returns a
  hom space.
\<close>

theorem factory_key_counterexample:
  "wf_rep P1 \<and> wf_rep P1_twin
   \<and> quiver_id (rep_quiver P1) = quiver_id (rep_quiver P1_twin)
   \<and> ring_id (rep_base_ring P1) = ring_id (rep_base_ring P1_twin)
   \<and> rep_quiver P1 = rep_quiver P1_twin \<and> rep_base_ring P1 = rep_base_ring P1_twin
   \<and> \<not> quiver_ne (rep_quiver P1) (rep_quiver P1_twin)
   \<and> \<not> ring_ne (rep_base_ring P1_twin) (rep_base_ring P1)
   \<and> QuiverHomSpace_generic 0 P1 P1_twin = Inr H_P1_twin
   \<and> rep_factory_data P1_twin = None
   \<and> create_key P1 P1_twin = Inl AttributeError
   \<and> QuiverHomSpace rep_store empty_factory P1 P1_twin = Inl AttributeError"
proof -
  have same: "rep_quiver P1 = rep_quiver P1_twin" "rep_base_ring P1 = rep_base_ring P1_twin"
    by (simp_all add: P1_twin_def)
  have ne: "\<not> quiver_ne (rep_quiver P1) (rep_quiver P1_twin)"
    "\<not> ring_ne (rep_base_ring P1_twin) (rep_base_ring P1)"
    by (simp_all add: quiver_ne_def ring_ne_def same)
  have f: "rep_factory_data P1 = Some 0" "rep_factory_data P1_twin = None"
    by (simp_all add: P1_twin_def P1_def)
  have key: "create_key P1 P1_twin = Inl AttributeError"
    by (simp add: create_key_def factory_data_def f same)
  have call: "QuiverHomSpace rep_store empty_factory P1 P1_twin = Inl AttributeError"
    by (simp add: QuiverHomSpace_def key)
  have obj: "QuiverHomSpace_generic 0 P1 P1_twin = Inr H_P1_twin"
    using QuiverHomSpace_generic_result [OF P1_wf P1_twin_wf ne, of 0]
    by (simp add: H_P1_twin_def same [symmetric] P1_twin_def P1_def)
  show ?thesis using P1_wf P1_twin_wf same ne f(2) key call obj by simp
qed

text \<open>
  Claim C3. For well-formed representations \<open>M\<close> (domain) and \<open>N\<close> (codomain) over the
  quiver of \<open>M\<close>, the construction of the system succeeds; the coefficient matrix has
  one row per entry of the vertex matrices (the sum over the vertices of
  \<open>dim M_v * dim N_v\<close>) and one column per equation (the sum over the edges of
  \<open>dim M_source * dim N_target\<close>); the equation counter ends at the number of columns;
  the loops run once for each triple (edge, row of \<open>X\<close>, column of \<open>Y\<close>) of
  \<open>equations\<close>, there are as many triples as columns, and column \<open>c\<close> holds the
  coefficients written by the \<open>c\<close>-th triple and nothing else: an iteration
  (\<open>write_equation\<close>) that starts with the counter at \<open>n\<close> assigns into column \<open>n\<close>
  only and leaves the counter at \<open>n + 1\<close>.
\<close>

theorem system_dimensions:
  fixes M N :: "('a::{zero,uminus}) QuiverRep"
  assumes "quiver_ok (rep_quiver M)" and "rep_ok (rep_quiver M) M" and "rep_ok (rep_quiver M) N"
  shows "\<exists>cm eqn. build_system M N = Inr (cm, eqn)
     \<and> nrows cm = sum_list (map (\<lambda>v. dim_at M v * dim_at N v) (vertices (rep_quiver M)))
     \<and> ncols cm = sum_list (map (\<lambda>e. dim_at M (fst e) * dim_at N (fst (snd e)))
                               (edges (rep_quiver M)))
     \<and> eqn = ncols cm
     \<and> length (equations M N (edges (rep_quiver M))) = ncols cm
     \<and> (\<forall>c<ncols cm. \<forall>r.
           entry cm r c = equation_of M N (equations M N (edges (rep_quiver M)) ! c) r)
     \<and> (\<forall>verts varstart e (X::'a Matrix) Y i j cm0 n cm' n'.
           write_equation verts varstart e X Y i j (cm0, n) = Inr (cm', n') \<longrightarrow>
             n' = n + 1 \<and> nrows cm' = nrows cm0 \<and> ncols cm' = ncols cm0
             \<and> (\<forall>r c. c \<noteq> n \<longrightarrow> entry cm' r c = entry cm0 r c))"
proof -
  have frame: "\<forall>verts varstart e (X::'a Matrix) Y i j cm0 n cm' n'.
           write_equation verts varstart e X Y i j (cm0, n) = Inr (cm', n') \<longrightarrow>
             n' = n + 1 \<and> nrows cm' = nrows cm0 \<and> ncols cm' = ncols cm0
             \<and> (\<forall>r c. c \<noteq> n \<longrightarrow> entry cm' r c = entry cm0 r c)"
    using write_equation_frame by blast
  have "build_system M N = Inr (system_matrix M N, ncols (system_matrix M N))"
    using assms by (rule build_system_result)
  moreover have "ncols (system_matrix M N) = sum_list (map (\<lambda>e. dim_at M (fst e) * dim_at N (fst (snd e)))
                               (edges (rep_quiver M)))"
    using length_equations_dims [OF assms(2,3)] by (simp add: system_matrix_def)
  ultimately show ?thesis using frame by (simp add: system_matrix_def)
qed

theorem system_dimensions_witness:
  "quiver_ok (rep_quiver P1) \<and> rep_ok (rep_quiver P1) P1 \<and>
   (\<exists>cm eqn. build_system P1 P1 = Inr (cm, eqn) \<and> nrows cm = 5 \<and> ncols cm = 4 \<and> eqn = 4)"
proof -
  have s: "sum_list (map (\<lambda>v. dim_at P1 v * dim_at P1 v) (vertices (rep_quiver P1))) = 5"
    by (simp add: P1_def Q_ab_def dim_at_def)
  have e: "sum_list (map (\<lambda>e. dim_at P1 (fst e) * dim_at P1 (fst (snd e)))
                               (edges (rep_quiver P1))) = 4"
    by (simp add: P1_def Q_ab_def dim_at_def)
  from system_dimensions [of P1 P1] P1_ok s e show ?thesis
    by auto
qed

text \<open>
  Claim C4 fails on the code at a vertex with a loop, by the overwritten coefficient of
  claim C1. The docstring of \<^verbatim>\<open>_identity\<close> says that it "returns the identity map", and
  the class "handles the set of all such maps"; for \<open>L1\<close> the hom space from \<open>L1\<close> to
  \<open>L1\<close> has the attribute \<^verbatim>\<open>identity\<close>, calling it returns the homomorphism with the
  vector \<open>[1]\<close>, which commutes with the loop, and \<^verbatim>\<open>__contains__\<close> returns \<open>False\<close>
  for it.
\<close>

theorem identity_at_loop_counterexample:
  "wf_rep L1 \<and> QuiverHomSpace_generic 0 L1 L1 = Inr H_L1
   \<and> identity H_L1 = Inr id_L1 \<and> hom_vector id_L1 = [1]
   \<and> is_hom L1 L1 (hom_vector id_L1)
   \<and> \<not> space_contains (hs_space H_L1) (hom_vector id_L1)
   \<and> contains H_L1 (HomObj id_L1) = Inr False"
proof -
  have same: "\<not> rep_ne L1 L1" by (simp add: quiver_ne_def ring_ne_def rep_ne_def)
  have v: "dict_vector L1 L1 (identity_dict L1) = [1]" by code_simp
  have q: "rep_quiver L1 = Q_loop" by (simp add: L1_def)
  have 2: "identity H_L1 = Inr id_L1"
    using private_identity_result [OF L1_wf same, of H_L1]
    by (simp add: identity_def H_L1_def id_L1_def v q)
  have w: "hom_vector id_L1 = [1]" by (simp add: id_L1_def)
  have h: "is_hom L1 L1 [1]" by code_simp
  have k: "\<not> space_contains (hs_space H_L1) [1]"
    unfolding H_L1_def by code_simp
  have 3: "contains H_L1 (HomObj id_L1) = Inr False"
    using k by (simp add: id_L1_def H_L1_def rep_ne_def quiver_ne_def ring_ne_def)
  show ?thesis using L1_wf H_L1_constructed 2 3 w h k by simp
qed

text \<open>
  Claim C5. A hom space that the constructor returned has a domain and a codomain over the
  same quiver and the same base ring (the constructor compares them with \<^verbatim>\<open>!=\<close>);
  \<^verbatim>\<open>quiver()\<close> and \<^verbatim>\<open>base_ring()\<close> return this quiver and this ring, \<^verbatim>\<open>domain()\<close>
  and \<^verbatim>\<open>codomain()\<close> the representations given to the constructor. No method of the
  class assigns to an attribute of the hom space; accordingly every method of the model is
  a function of the hom space that returns no new one.
\<close>

theorem hom_space_invariant:
  fixes M N :: "('a::comm_ring_1) QuiverRep"
  assumes "QuiverHomSpace_generic self M N = Inr H"
  shows "\<not> quiver_ne (rep_quiver (domain H)) (rep_quiver (codomain H))
     \<and> \<not> ring_ne (rep_base_ring (codomain H)) (rep_base_ring (domain H))
     \<and> quiver H = rep_quiver M \<and> \<not> quiver_ne (quiver H) (rep_quiver N)
     \<and> base_ring H = rep_base_ring N \<and> \<not> ring_ne (base_ring H) (rep_base_ring M)
     \<and> domain H = M \<and> codomain H = N"
  using QuiverHomSpace_generic_Inr [OF assms]
  by (simp add: quiver_def base_ring_def domain_def codomain_def)

theorem hom_space_invariant_witness:
  "QuiverHomSpace_generic 0 P1 P1 = Inr H_P1
   \<and> quiver H_P1 = Q_ab \<and> base_ring H_P1 = ZZ \<and> domain H_P1 = P1 \<and> codomain H_P1 = P1"
  using hom_space_invariant [OF H_P1_constructed] H_P1_constructed
  by (simp add: P1_def)

text \<open>
  Claim C6. When a call of the factory with a domain and a codomain has returned a hom
  space, the next call with the same domain and codomain returns the same hom space and
  leaves the factory as it is: \<^verbatim>\<open>create_key\<close> returns the pair of the keys of the two
  representations, the same pair in both calls, and the first call left the object in
  the cache under that pair.
\<close>

theorem factory_returns_cached_object:
  assumes "QuiverHomSpace get_object fac M N = Inr (H, fac')"
  shows "QuiverHomSpace get_object fac' M N = Inr (H, fac')
     \<and> (\<exists>k1 k2. rep_factory_data M = Some k1 \<and> rep_factory_data N = Some k2
           \<and> create_key M N = Inr (k1, k2) \<and> cache fac' (k1, k2) = Some H)"
proof -
  from assms obtain key where key: "create_key M N = Inr key"
    by (auto simp: QuiverHomSpace_def ebind_eq_Inr)
  then obtain k1 k2 where k: "rep_factory_data M = Some k1" "rep_factory_data N = Some k2"
    "key = (k1, k2)"
    by (auto simp: create_key_def factory_data_def ebind_eq_Inr split: if_splits option.splits)
  have c: "cache fac' key = Some H"
    using assms key
    by (auto simp: QuiverHomSpace_def ebind_eq_Inr split: option.splits)
  then have "QuiverHomSpace get_object fac' M N = Inr (H, fac')"
    using key by (simp add: QuiverHomSpace_def)
  then show ?thesis using key k c by simp
qed

theorem factory_returns_cached_object_witness:
  "\<exists>fac'. QuiverHomSpace rep_store empty_factory P1 P1 = Inr (H_P1, fac')
      \<and> QuiverHomSpace rep_store fac' P1 P1 = Inr (H_P1, fac')"
proof -
  obtain fac' where f: "QuiverHomSpace rep_store empty_factory P1 P1 = Inr (H_P1, fac')"
    using first_call by blast
  then show ?thesis using factory_returns_cached_object [OF f] by blast
qed

text \<open>
  Claim C7. For a constructed hom space and a linear-algebra library whose generators of
  the kernel space are linearly independent and whose \<^verbatim>\<open>coordinates\<close> expresses a vector
  in these generators, \<^verbatim>\<open>gens\<close> returns as many homomorphisms as the dimension, the
  \<open>i\<close>-th with the \<open>i\<close>-th generator as its vector, and \<^verbatim>\<open>coordinates\<close> of the
  \<open>i\<close>-th is the \<open>i\<close>-th unit vector.
\<close>

theorem gens_coordinates_round_trip:
  fixes M N :: "('a::comm_ring_1) QuiverRep"
  assumes "QuiverHomSpace_generic self M N = Inr H"
    and "linear_algebra_ok lib (hs_space H)"
  shows "\<exists>gs. gens lib H = Inr gs \<and> length gs = dimension lib H
     \<and> (\<forall>i<dimension lib H.
           hom_vector (gs ! i) = space_gens lib (hs_space H) ! i
           \<and> coordinates lib H (gs ! i) = Inr (unit_vector (dimension lib H) i))"
proof -
  let ?S = "hs_space H"
  let ?B = "space_gens lib ?S"
  let ?n = "ambient_dim ?S"
  let ?wrap = "\<lambda>f. \<lparr>hom_quiver = rep_quiver M, hom_domain = M, hom_codomain = N, hom_vector = f\<rparr>"
  note H = QuiverHomSpace_generic_Inr [OF assms(1)]
  have len: "\<forall>b \<in> set ?B. length b = ?n" and ind: "independent ?n ?B"
    and dim: "space_dimension lib ?S = length ?B"
    and sound: "\<forall>v c. space_coordinates lib ?S v = Inr c \<longrightarrow>
            length c = length ?B \<and> lincomb ?n c ?B = v"
    and defd: "\<forall>b \<in> set ?B. \<exists>c. space_coordinates lib ?S b = Inr c"
    using assms(2) unfolding linear_algebra_ok_def by blast+
  have "gens lib H = Inr (map ?wrap ?B)"
    unfolding gens_def H(5,6)
    by (rule map_result_all) (use H(1,2) in \<open>simp add: QuiverRepHom_def\<close>)
  moreover have "coordinates lib H (map ?wrap ?B ! i) = Inr (unit_vector (length ?B) i)"
    if i: "i < length ?B" for i
  proof -
    have mem: "?B ! i \<in> set ?B" using i by simp
    then obtain c where c: "space_coordinates lib ?S (?B ! i) = Inr c"
      using defd by blast
    then have lc: "length c = length ?B" and comb: "lincomb ?n c ?B = ?B ! i"
      using sound by blast+
    have "lincomb ?n (unit_vector (length ?B) i) ?B = ?B ! i"
      using i len mem by (intro lincomb_unit_vector) simp_all
    then have "c = unit_vector (length ?B) i"
      using lincomb_unique [OF ind lc, of "unit_vector (length ?B) i"] comb
      by (simp add: unit_vector_def)
    then show ?thesis using c i by (simp add: coordinates_def)
  qed
  ultimately show ?thesis
    by (simp add: dimension_def dim)
qed

theorem gens_coordinates_round_trip_witness:
  "QuiverHomSpace_generic 0 P1 P1 = Inr H_P1 \<and> linear_algebra_ok lib_P1 (hs_space H_P1)
   \<and> dimension lib_P1 H_P1 = 1
   \<and> (\<exists>gs. gens lib_P1 H_P1 = Inr gs \<and> length gs = 1
        \<and> hom_vector (gs ! 0) = [1, 1, 0, 0, 1]
        \<and> coordinates lib_P1 H_P1 (gs ! 0) = Inr [1])"
proof -
  have d: "dimension lib_P1 H_P1 = 1" by (simp add: dimension_def lib_P1_def)
  have u: "unit_vector 1 0 = [1::int]" by (simp add: unit_vector_def)
  have g: "space_gens lib_P1 (hs_space H_P1) ! 0 = [1, 1, 0, 0, 1]" by (simp add: lib_P1_def)
  from gens_coordinates_round_trip [OF H_P1_constructed lib_P1_ok]
  show ?thesis using H_P1_constructed lib_P1_ok d u g by auto
qed

text \<open>
  Claim C8. For a hom space constructed from well-formed representations, the element
  constructor called with no argument or \<^verbatim>\<open>None\<close>, or with the integer \<open>0\<close>, passes
  the empty dictionary to \<^verbatim>\<open>QuiverRepHom\<close> and returns the zero homomorphism: its
  vector is zero, and so is its matrix at every vertex.
\<close>

theorem element_constructor_zero:
  fixes M N :: "('a::comm_ring_1) QuiverRep"
  assumes "wf_rep M" and "wf_rep N" and "QuiverHomSpace_generic self M N = Inr H"
  shows "\<exists>z. element_constructor H DataNone = Inr z
     \<and> element_constructor H (DataInt 0) = Inr z
     \<and> element_constructor H (DataDict Map.empty) = Inr z
     \<and> hom_domain z = M \<and> hom_codomain z = N
     \<and> hom_vector z = replicate (hom_dim M N) 0
     \<and> (\<forall>v \<in> set (vertices (rep_quiver M)). \<forall>i<dim_at M v. \<forall>k<dim_at N v.
           entry (vertex_map M N (hom_vector z) v) i k = 0)"
proof -
  let ?z = "\<lparr>hom_quiver = rep_quiver M, hom_domain = M, hom_codomain = N,
          hom_vector = dict_vector M N Map.empty\<rparr>"
  have ne: "\<not> quiver_ne (rep_quiver M) (rep_quiver N)"
    "\<not> ring_ne (rep_base_ring N) (rep_base_ring M)"
    and H: "hs_domain H = M" "hs_codomain H = N"
    using QuiverHomSpace_generic_Inr [OF assms(3)] by simp_all
  have q: "quiver_ok (rep_quiver M)" and m: "rep_ok (rep_quiver M) M"
    using assms(1) by (simp_all add: wf_rep_def)
  have n: "rep_ok (rep_quiver M) N"
    using assms(2) ne(1) by (auto simp: wf_rep_def intro: rep_ok_quiver_eq)
  have fits: "dict_fits M N Map.empty" by (simp add: dict_fits_def list_all_iff)
  have z: "QuiverRepHom M N (DataDict Map.empty) = Inr ?z"
    using ne fits is_hom_zero [OF q m n] by (rule QuiverRepHom_dict)
  have 1: "element_constructor H DataNone = Inr ?z"
    and 2: "element_constructor H (DataInt 0) = Inr ?z"
    and 3: "element_constructor H (DataDict Map.empty) = Inr ?z"
    using z by (simp_all add: element_constructor_def H)
  have 4: "\<forall>v \<in> set (vertices (rep_quiver M)). \<forall>i<dim_at M v. \<forall>k<dim_at N v.
           entry (vertex_map M N (hom_vector ?z) v) i k = 0"
    by (simp add: zero_vertex_maps)
  show ?thesis
    apply (rule exI [of _ ?z])
    using 1 2 3 4 by (simp add: dict_vector_empty)
qed

theorem element_constructor_zero_witness:
  "wf_rep P1 \<and> QuiverHomSpace_generic 0 P1 P1 = Inr H_P1
   \<and> (\<exists>z. element_constructor H_P1 DataNone = Inr z
         \<and> element_constructor H_P1 (DataInt 0) = Inr z
         \<and> hom_vector z = [0, 0, 0, 0, 0])"
proof -
  have "replicate (hom_dim P1 P1) (0::int) = [0, 0, 0, 0, 0]" by code_simp
  then show ?thesis
    using element_constructor_zero [OF P1_wf P1_wf H_P1_constructed] P1_wf H_P1_constructed
    by auto
qed

text \<open>
  Claim C9. \<^verbatim>\<open>__contains__\<close> returns a truth value for every argument and raises
  nothing; it returns \<open>False\<close> for an object that is not a \<^verbatim>\<open>QuiverRepHom\<close>, and for a
  homomorphism whose quiver, domain or codomain differs from that of the hom space; for
  the others it returns whether the vector of the homomorphism lies in the kernel space.
\<close>

theorem contains_total:
  fixes H :: "('a::comm_ring_1) QuiverHomSpace"
  shows "(\<exists>b. contains H x = Inr b)
     \<and> contains H OtherObj = Inr False
     \<and> (quiver_ne (hs_quiver H) (hom_quiver f) \<or> rep_ne (hs_domain H) (hom_domain f)
          \<or> rep_ne (hs_codomain H) (hom_codomain f)
        \<longrightarrow> contains H (HomObj f) = Inr False)
     \<and> (\<not> quiver_ne (hs_quiver H) (hom_quiver f) \<and> \<not> rep_ne (hs_domain H) (hom_domain f)
          \<and> \<not> rep_ne (hs_codomain H) (hom_codomain f)
        \<longrightarrow> contains H (HomObj f) = Inr (space_contains (hs_space H) (hom_vector f)))"
  by (cases x) auto

theorem contains_total_witness:
  "contains H_P1 OtherObj = Inr False
   \<and> rep_ne (hs_domain H_P1) (hom_domain (hom_S2_P1 [0, 0]))
   \<and> contains H_P1 (HomObj (hom_S2_P1 [0, 0])) = Inr False
   \<and> \<not> rep_ne (hs_domain H_P1) (hom_domain (hom_P1 [1, 1, 0, 0, 1]))
   \<and> contains H_P1 (HomObj (hom_P1 [1, 1, 0, 0, 1])) = Inr True
   \<and> contains H_P1 (HomObj (hom_P1 [1, 0, 0, 0, 1])) = Inr False"
proof -
  have ne: "rep_ne (hs_domain H_P1) (hom_domain (hom_S2_P1 [0, 0]))"
  proof -
    have "rep_spaces P1 1 \<noteq> rep_spaces S2 1" by (simp add: P1_def S2_def)
    then have "rep_spaces P1 \<noteq> rep_spaces S2" by metis
    then show ?thesis by (simp add: rep_ne_def H_P1_def hom_S2_P1_def)
  qed
  have eq: "\<not> quiver_ne (hs_quiver H_P1) (hom_quiver (hom_P1 w))
      \<and> \<not> rep_ne (hs_domain H_P1) (hom_domain (hom_P1 w))
      \<and> \<not> rep_ne (hs_codomain H_P1) (hom_codomain (hom_P1 w))" for w
    by (simp add: H_P1_def hom_P1_def rep_ne_def quiver_ne_def ring_ne_def)
  have k1: "space_contains (hs_space H_P1) (hom_vector (hom_P1 [1, 1, 0, 0, 1]))"
    unfolding H_P1_def hom_P1_def by code_simp
  have k2: "\<not> space_contains (hs_space H_P1) (hom_vector (hom_P1 [1, 0, 0, 0, 1]))"
    unfolding H_P1_def hom_P1_def by code_simp
  show ?thesis
    using contains_total [of H_P1 OtherObj "hom_S2_P1 [0, 0]"]
      contains_total [of H_P1 OtherObj "hom_P1 [1, 1, 0, 0, 1]"]
      contains_total [of H_P1 OtherObj "hom_P1 [1, 0, 0, 0, 1]"]
      ne eq k1 k2
    by simp
qed



end
